theory Spec2Isabelle
  imports Main
begin

section \<open>Intermediate representation (packages/compiler/src/ir.ts)\<close>

text \<open>
  An \<open>ExpandedWord\<close> is the tagged union of ir.ts: a literal with its value, a glob with
  its pattern and the list of resolved matches, a command substitution with its command
  text and the list of captured output lines.
\<close>

datatype ExpandedWord =
    EW_literal string
  | EW_glob string "string list"
  | EW_commandSub string "string list"

datatype RedirectionKind = RK_input | RK_output

record RedirectionIR =
  redir_kind :: RedirectionKind
  redir_target :: ExpandedWord

record SimpleCommandIR =
  cmd_name :: ExpandedWord
  cmd_args :: "ExpandedWord list"
  cmd_redirections :: "RedirectionIR list"

text \<open>The helper constructors \<open>literal\<close>, \<open>glob\<close> and \<open>commandSub\<close> with their defaults.\<close>

definition literal :: "string \<Rightarrow> ExpandedWord" where
  "literal v = EW_literal v"

definition glob :: "string \<Rightarrow> ExpandedWord" where
  "glob p = EW_glob p []"

definition commandSub :: "string \<Rightarrow> ExpandedWord" where
  "commandSub c = EW_commandSub c []"

fun expandedWordToString :: "ExpandedWord \<Rightarrow> string" where
  "expandedWordToString (EW_literal v) = v"
| "expandedWordToString (EW_glob p e) = p"
| "expandedWordToString (EW_commandSub c out) = c"

text \<open>
  \<open>extractPathsFromExpandedWords\<close> is a \<open>flatMap\<close> over the words; \<open>extractPaths1\<close> is the
  body of its callback.
\<close>

fun extractPaths1 :: "ExpandedWord \<Rightarrow> string list" where
  "extractPaths1 (EW_literal v) = [v]"
| "extractPaths1 (EW_glob p e) = (if length e > 0 then e else [p])"
| "extractPaths1 (EW_commandSub c out) = out"

definition extractPathsFromExpandedWords :: "ExpandedWord list \<Rightarrow> string list" where
  "extractPathsFromExpandedWords ws = concat (map extractPaths1 ws)"

text \<open>
  The flag values a cat step carries, and the union \<open>StepIRV2\<close> of the nine step shapes.
  A JavaScript \<open>number\<close> that counts lines is an \<open>int\<close> here.
\<close>

record CatFlags =
  numberLines :: bool
  numberNonBlank :: bool
  showAll :: bool
  showEnds :: bool
  showNonprinting :: bool
  showTabs :: bool
  squeezeBlank :: bool

datatype StepIRV2 =
    CatStepV2 "ExpandedWord list" CatFlags
  | CpStepV2 "ExpandedWord list" ExpandedWord bool
  | HeadStepV2 int "ExpandedWord list"
  | LsStepV2 "ExpandedWord list"
  | MkdirStepV2 "ExpandedWord list" bool
  | MvStepV2 "ExpandedWord list" ExpandedWord
  | RmStepV2 "ExpandedWord list" bool
  | TailStepV2 int "ExpandedWord list"
  | TouchStepV2 "ExpandedWord list"

text \<open>A thrown \<open>Error(message)\<close> is the left injection of the result.\<close>

datatype error = Error string

section \<open>Command handlers (packages/compiler/src/compile/command)\<close>

subsection \<open>rm\<close>

text \<open>
  The \<open>for\<close> loop of \<open>compileRmV2\<close> over \<open>cmd.args\<close>, with its two mutable locals
  \<open>recursive\<close> and \<open>paths\<close> passed along.
\<close>

fun rm_loop :: "ExpandedWord list \<Rightarrow> bool \<Rightarrow> ExpandedWord list \<Rightarrow> bool \<times> ExpandedWord list" where
  "rm_loop [] recursive paths = (recursive, paths)"
| "rm_loop (arg # rest) recursive paths =
     (let argStr = expandedWordToString arg in
      if argStr = ''-r'' then rm_loop rest True paths
      else if argStr \<noteq> ''-f'' \<and> argStr \<noteq> ''-i'' then rm_loop rest recursive (paths @ [arg])
      else rm_loop rest recursive paths)"

definition compileRmV2 :: "SimpleCommandIR \<Rightarrow> error + StepIRV2" where
  "compileRmV2 cmd =
     (case rm_loop (cmd_args cmd) False [] of
        (recursive, paths) \<Rightarrow>
          if length paths = 0 then Inl (Error ''rm requires at least one path'')
          else Inr (RmStepV2 paths recursive))"

subsection \<open>cp\<close>

fun cp_loop :: "ExpandedWord list \<Rightarrow> bool \<Rightarrow> ExpandedWord list \<Rightarrow> bool \<times> ExpandedWord list" where
  "cp_loop [] recursive filteredArgs = (recursive, filteredArgs)"
| "cp_loop (arg # rest) recursive filteredArgs =
     (let argStr = expandedWordToString arg in
      if argStr = ''-r'' then cp_loop rest True filteredArgs
      else if argStr \<noteq> ''-f'' \<and> argStr \<noteq> ''-i'' then cp_loop rest recursive (filteredArgs @ [arg])
      else cp_loop rest recursive filteredArgs)"

text \<open>
  \<open>filteredArgs.pop()\<close> takes the last element off; the check \<open>!dest\<close> after it can only
  fire on an empty array, which the length check before it excludes.
\<close>

definition compileCpV2 :: "SimpleCommandIR \<Rightarrow> error + StepIRV2" where
  "compileCpV2 cmd =
     (case cp_loop (cmd_args cmd) False [] of
        (recursive, filteredArgs) \<Rightarrow>
          if length filteredArgs < 2 then Inl (Error ''cp requires source and destination'')
          else if filteredArgs = [] then Inl (Error ''cp requires source and destination'')
          else Inr (CpStepV2 (butlast filteredArgs) (last filteredArgs) recursive))"

subsection \<open>mv\<close>

fun mv_loop :: "ExpandedWord list \<Rightarrow> ExpandedWord list \<Rightarrow> ExpandedWord list" where
  "mv_loop [] filteredArgs = filteredArgs"
| "mv_loop (arg # rest) filteredArgs =
     (let argStr = expandedWordToString arg in
      if argStr \<noteq> ''-f'' \<and> argStr \<noteq> ''-i'' then mv_loop rest (filteredArgs @ [arg])
      else mv_loop rest filteredArgs)"

definition compileMvV2 :: "SimpleCommandIR \<Rightarrow> error + StepIRV2" where
  "compileMvV2 cmd =
     (let filteredArgs = mv_loop (cmd_args cmd) [] in
      if length filteredArgs < 2 then Inl (Error ''mv requires source and destination'')
      else if filteredArgs = [] then Inl (Error ''mv requires source and destination'')
      else Inr (MvStepV2 (butlast filteredArgs) (last filteredArgs)))"

subsection \<open>mkdir\<close>

fun mkdir_loop :: "ExpandedWord list \<Rightarrow> bool \<Rightarrow> ExpandedWord list \<Rightarrow> bool \<times> ExpandedWord list" where
  "mkdir_loop [] recursive paths = (recursive, paths)"
| "mkdir_loop (arg # rest) recursive paths =
     (let argStr = expandedWordToString arg in
      if argStr = ''-p'' then mkdir_loop rest True paths
      else mkdir_loop rest recursive (paths @ [arg]))"

definition compileMkdirV2 :: "SimpleCommandIR \<Rightarrow> error + StepIRV2" where
  "compileMkdirV2 cmd =
     (case mkdir_loop (cmd_args cmd) False [] of
        (recursive, paths) \<Rightarrow>
          if length paths = 0 then Inl (Error ''mkdir requires at least one path'')
          else Inr (MkdirStepV2 paths recursive))"

subsection \<open>touch\<close>

text \<open>\<open>argStr.startsWith('-')\<close>.\<close>

definition startsWithDash :: "string \<Rightarrow> bool" where
  "startsWithDash s = (case s of [] \<Rightarrow> False | c # _ \<Rightarrow> c = CHR ''-'')"

fun touch_loop :: "ExpandedWord list \<Rightarrow> ExpandedWord list \<Rightarrow> ExpandedWord list" where
  "touch_loop [] files = files"
| "touch_loop (arg # rest) files =
     (let argStr = expandedWordToString arg in
      if \<not> startsWithDash argStr then touch_loop rest (files @ [arg])
      else touch_loop rest files)"

definition compileTouchV2 :: "SimpleCommandIR \<Rightarrow> error + StepIRV2" where
  "compileTouchV2 cmd =
     (let files = touch_loop (cmd_args cmd) [] in
      if length files = 0 then Inl (Error ''touch requires at least one file'')
      else Inr (TouchStepV2 files))"

subsection \<open>ls\<close>

definition compileLsV2 :: "SimpleCommandIR \<Rightarrow> error + StepIRV2" where
  "compileLsV2 cmd =
     Inr (LsStepV2 (if length (cmd_args cmd) = 0 then [literal ''.''] else cmd_args cmd))"

subsection \<open>cat\<close>

text \<open>
  \<open>compileCatV2\<close> hands the argument strings to \<open>parseArgs\<close> of \<open>../arg/parse\<close>, which is
  not among the sources: it is a parameter here, a function from the argument strings
  (the flag table of cat-v2.ts is a constant) to either an error or the parsed flags, of
  which the handler reads the seven it compares with \<open>true\<close>.
\<close>

fun cat_loop :: "ExpandedWord list \<Rightarrow> ExpandedWord list \<Rightarrow> ExpandedWord list" where
  "cat_loop [] fileArgs = fileArgs"
| "cat_loop (arg # rest) fileArgs =
     (let argStr = expandedWordToString arg in
      if \<not> startsWithDash argStr then cat_loop rest (fileArgs @ [arg])
      else cat_loop rest fileArgs)"

definition compileCatV2 :: "(string list \<Rightarrow> error + CatFlags) \<Rightarrow> SimpleCommandIR \<Rightarrow> error + StepIRV2" where
  "compileCatV2 parseArgs cmd =
     (let argStrings = map expandedWordToString (cmd_args cmd) in
      case parseArgs argStrings of
        Inl e \<Rightarrow> Inl e
      | Inr parsed \<Rightarrow>
          (let fileArgs = cat_loop (cmd_args cmd) [] in
           if length fileArgs = 0 then Inl (Error ''cat requires at least one file'')
           else Inr (CatStepV2 fileArgs parsed)))"

section \<open>Handler registries\<close>

text \<open>
  The registry of the AST-based compiler (\<open>CommandHandlerV2\<close>) and the registry of the
  string-based compiler (\<open>CommandHandler\<close>, handler.ts) are object literals keyed by
  the command name. A handler is named by a tag. \<open>handlers[name]\<close> on an object literal
  also finds the properties every object inherits, which are truthy, so \<open>get\<close> returns
  them instead of throwing: \<open>Inherited\<close> stands for such a value. The registries
  below are the ones the modules start with; \<open>register\<close>, which adds an entry at run time,
  is called nowhere in the sources.
\<close>

datatype HandlerV2 =
    H_compileCatV2 | H_compileCpV2 | H_compileHeadV2 | H_compileLsV2 | H_compileMkdirV2
  | H_compileMvV2 | H_compileRmV2 | H_compileTailV2 | H_compileTouchV2
  | H_InheritedV2 string

datatype Handler =
    H_compileCat | H_compileCp | H_compileLs | H_compilePwd | H_compileRm | H_compileTail
  | H_Inherited string

definition objectPrototypeKeys :: "string list" where
  "objectPrototypeKeys =
     [''constructor'', ''hasOwnProperty'', ''isPrototypeOf'', ''propertyIsEnumerable'',
      ''toLocaleString'', ''toString'', ''valueOf'', ''__proto__'',
      ''__defineGetter__'', ''__defineSetter__'', ''__lookupGetter__'', ''__lookupSetter__'']"

definition handlersV2 :: "(string \<times> HandlerV2) list" where
  "handlersV2 =
     [(''cat'', H_compileCatV2), (''cp'', H_compileCpV2), (''head'', H_compileHeadV2),
      (''ls'', H_compileLsV2), (''mkdir'', H_compileMkdirV2), (''mv'', H_compileMvV2),
      (''rm'', H_compileRmV2), (''tail'', H_compileTailV2), (''touch'', H_compileTouchV2)]"

definition CommandHandlerV2_get :: "string \<Rightarrow> error + HandlerV2" where
  "CommandHandlerV2_get name =
     (case map_of handlersV2 name of
        Some h \<Rightarrow> Inr h
      | None \<Rightarrow>
          if name \<in> set objectPrototypeKeys then Inr (H_InheritedV2 name)
          else Inl (Error (''Unknown command: '' @ name)))"

definition handlers :: "(string \<times> Handler) list" where
  "handlers =
     [(''cat'', H_compileCat), (''cp'', H_compileCp), (''ls'', H_compileLs),
      (''pwd'', H_compilePwd), (''rm'', H_compileRm), (''tail'', H_compileTail)]"

definition CommandHandler_get :: "string \<Rightarrow> error + Handler" where
  "CommandHandler_get name =
     (case map_of handlers name of
        Some h \<Rightarrow> Inr h
      | None \<Rightarrow>
          if name \<in> set objectPrototypeKeys then Inr (H_Inherited name)
          else Inl (Error (''Unknown command: '' @ name)))"

section \<open>The tail transformer (packages/vsh/src/operator/tail/tail.ts)\<close>

text \<open>
  A line record; \<open>tail\<close> only moves records, so it is modelled for any record type.
\<close>

record LineRecord =
  line_text :: string
  line_file :: "string option"
  line_lineNum :: "int option"

text \<open>
  The \<open>for await\<close> loop of \<open>tail\<close>: \<open>buf.push(x)\<close>, then \<open>buf.shift()\<close> when
  \<open>buf.length > n\<close>. The input stream is the list of the records it yields. Beside the
  buffer the loop carries \<open>peak\<close>, the largest length the buffer has had so far; it is
  read right after the push, where the buffer is longest. \<open>peak\<close> is not a variable of the
  source: it records what the source's buffer does.
\<close>

fun tail_loop :: "int \<Rightarrow> 'a list \<Rightarrow> nat \<Rightarrow> 'a list \<Rightarrow> 'a list \<times> nat" where
  "tail_loop n buf peak [] = (buf, peak)"
| "tail_loop n buf peak (x # input) =
     (let buf1 = buf @ [x]; peak1 = max peak (length buf1) in
      if int (length buf1) > n then tail_loop n (tl buf1) peak1 input
      else tail_loop n buf1 peak1 input)"

text \<open>\<open>yield* buf\<close>: the records \<open>tail(n)\<close> yields, and the peak length of its buffer.\<close>

definition tail :: "int \<Rightarrow> 'a list \<Rightarrow> 'a list" where
  "tail n input = fst (tail_loop n [] 0 input)"

definition tail_peak :: "int \<Rightarrow> 'a list \<Rightarrow> nat" where
  "tail_peak n input = snd (tail_loop n [] 0 input)"

section \<open>The touch effect (packages/vsh/src/operator/touch/touch.ts)\<close>

text \<open>
  Modelled from the spec: the filesystem capability (\<open>fs/fs.ts\<close> is not among the
  sources). The capability is a finite map from paths to contents; \<open>exists\<close> asks whether
  the path is bound, \<open>writeFile\<close> binds it. \<open>fs_writes\<close> is the journal of the writes the
  capability has received, in order.
\<close>

type_synonym bytes = "nat list"

record FS =
  fs_files :: "string \<rightharpoonup> bytes"
  fs_writes :: "(string \<times> bytes) list"

definition fs_exists :: "FS \<Rightarrow> string \<Rightarrow> bool" where
  "fs_exists fs path = (fs_files fs path \<noteq> None)"

definition fs_writeFile :: "FS \<Rightarrow> string \<Rightarrow> bytes \<Rightarrow> FS" where
  "fs_writeFile fs path content =
     fs\<lparr>fs_files := (fs_files fs)(path \<mapsto> content),
        fs_writes := fs_writes fs @ [(path, content)]\<rparr>"

text \<open>The loop of \<open>touch\<close> over \<open>files\<close>; \<open>new Uint8Array()\<close> is the empty content.\<close>

fun touch :: "FS \<Rightarrow> string list \<Rightarrow> FS" where
  "touch fs [] = fs"
| "touch fs (file # files) =
     (if \<not> fs_exists fs file then touch (fs_writeFile fs file []) files
      else touch fs files)"

section \<open>What a handler can see of a word at compile time\<close>

text \<open>
  \<open>compileTimeText\<close> keeps the kind and the text of a word (value, pattern or command)
  and forgets what the glob or the substitution resolved to. Two commands have the same
  compile-time text when their arguments agree up to the resolved lists, and two handler
  results agree on the classification when they fail alike or return the same step up to
  the resolved lists: the same flags set, the same operands in the same places.
\<close>

fun compileTimeText :: "ExpandedWord \<Rightarrow> ExpandedWord" where
  "compileTimeText (EW_literal v) = EW_literal v"
| "compileTimeText (EW_glob p e) = EW_glob p []"
| "compileTimeText (EW_commandSub c out) = EW_commandSub c []"

fun stepCompileTimeText :: "StepIRV2 \<Rightarrow> StepIRV2" where
  "stepCompileTimeText (CatStepV2 files fl) = CatStepV2 (map compileTimeText files) fl"
| "stepCompileTimeText (CpStepV2 srcs dest r) =
     CpStepV2 (map compileTimeText srcs) (compileTimeText dest) r"
| "stepCompileTimeText (HeadStepV2 n files) = HeadStepV2 n (map compileTimeText files)"
| "stepCompileTimeText (LsStepV2 paths) = LsStepV2 (map compileTimeText paths)"
| "stepCompileTimeText (MkdirStepV2 paths r) = MkdirStepV2 (map compileTimeText paths) r"
| "stepCompileTimeText (MvStepV2 srcs dest) =
     MvStepV2 (map compileTimeText srcs) (compileTimeText dest)"
| "stepCompileTimeText (RmStepV2 paths r) = RmStepV2 (map compileTimeText paths) r"
| "stepCompileTimeText (TailStepV2 n files) = TailStepV2 n (map compileTimeText files)"
| "stepCompileTimeText (TouchStepV2 files) = TouchStepV2 (map compileTimeText files)"

definition sameCompileTimeText :: "SimpleCommandIR \<Rightarrow> SimpleCommandIR \<Rightarrow> bool" where
  "sameCompileTimeText c1 c2 =
     (map compileTimeText (cmd_args c1) = map compileTimeText (cmd_args c2))"

definition agreeOnClassification :: "error + StepIRV2 \<Rightarrow> error + StepIRV2 \<Rightarrow> bool" where
  "agreeOnClassification r1 r2 =
     (map_sum id stepCompileTimeText r1 = map_sum id stepCompileTimeText r2)"

text \<open>A command that has the given arguments, an empty name and no redirection.\<close>

definition argsOnly :: "ExpandedWord list \<Rightarrow> SimpleCommandIR" where
  "argsOnly as = \<lparr>cmd_name = EW_literal [], cmd_args = as, cmd_redirections = []\<rparr>"

section \<open>The executor (packages/vsh/src/execute/execute.ts)\<close>




datatype Record = FileRecord string | LineRec LineRecord | JsonRecord string


text \<open>
  Modelled from the spec: \<open>delete\<close> of the filesystem capability (\<open>fs/fs.ts\<close> is not
  among the sources). It removes the path, and fails when the path is absent.
\<close>

definition fs_delete :: "FS \<Rightarrow> string \<Rightarrow> error + FS" where
  "fs_delete fs path =
     (if fs_exists fs path then Inr (fs\<lparr>fs_files := (fs_files fs)(path := None)\<rparr>)
      else Inl (Error (''File not found: '' @ path)))"


text \<open>The sink \<open>rm\<close> (rm.ts) deletes the path of each record of its input.\<close>

fun rm :: "FS \<Rightarrow> string list \<Rightarrow> error + FS" where
  "rm fs [] = Inr fs"
| "rm fs (path # input) =
     (case fs_delete fs path of Inl e \<Rightarrow> Inl e | Inr fs1 \<Rightarrow> rm fs1 input)"




section \<open>Lexer (packages/compiler/src/lexer)\<close>

text \<open>
  A JavaScript string is a sequence of UTF-16 code units; the scanner compares them with
  ASCII characters only, so a \<open>string\<close> of 8-bit characters stands for it. The control
  characters and the two quotes are named by their codes.
\<close>

abbreviation NUL :: char where "NUL \<equiv> CHR 0x00"
abbreviation TAB :: char where "TAB \<equiv> CHR 0x09"
abbreviation LF :: char where "LF \<equiv> CHR 0x0A"
abbreviation SPACE :: char where "SPACE \<equiv> CHR 0x20"
abbreviation DQUOTE :: char where "DQUOTE \<equiv> CHR 0x22"
abbreviation SQUOTE :: char where "SQUOTE \<equiv> CHR 0x27"
abbreviation BACKSLASH :: char where "BACKSLASH \<equiv> CHR 0x5C"

subsection \<open>Positions and spans (position.ts)\<close>

record SourcePosition =
  pos_line :: nat
  pos_column :: nat
  pos_offset :: nat

record SourceSpan =
  span_start :: SourcePosition
  span_end :: SourcePosition

subsection \<open>Tokens (token.ts)\<close>

datatype TokenKind =
    TK_EOF | TK_ERROR | TK_NEWLINE | TK_COMMENT | TK_WORD | TK_NAME | TK_NUMBER
  | TK_PIPE | TK_LPAREN | TK_RPAREN | TK_LESS | TK_GREAT | TK_COMMAND_SUB | TK_GLOB

record TokenFlagsObject =
  quoted :: bool
  singleQuoted :: bool
  doubleQuoted :: bool
  containsExpansion :: bool
  containsGlob :: bool

definition createEmptyFlags :: TokenFlagsObject where
  "createEmptyFlags =
     \<lparr>quoted = False, singleQuoted = False, doubleQuoted = False,
      containsExpansion = False, containsGlob = False\<rparr>"

definition isQuoted :: "TokenFlagsObject \<Rightarrow> bool" where
  "isQuoted fl = (quoted fl \<or> singleQuoted fl \<or> doubleQuoted fl)"

record Token =
  tok_kind :: TokenKind
  tok_spelling :: string
  tok_span :: SourceSpan
  tok_flags :: TokenFlagsObject

subsection \<open>Operator tables (operators.ts)\<close>

definition OPERATORS :: "(string \<times> TokenKind) list" where
  "OPERATORS = []"

definition SINGLE_CHAR_OPS :: "(char \<times> TokenKind) list" where
  "SINGLE_CHAR_OPS = [(CHR ''|'', TK_PIPE), (CHR ''<'', TK_LESS), (CHR ''>'', TK_GREAT)]"

definition WORD_BOUNDARY_CHARS :: "char list" where
  "WORD_BOUNDARY_CHARS =
     [SPACE, TAB, LF, CHR ''|'', CHR ''<'', CHR ''>'', CHR ''('', CHR '')'', NUL]"

subsection \<open>The state stack (context.ts)\<close>

datatype LexerState = NORMAL | SINGLE_QUOTED | DOUBLE_QUOTED | COMMAND_SUB

text \<open>The stack is an array whose top is its last element.\<close>

definition ctx_current :: "LexerState list \<Rightarrow> LexerState" where
  "ctx_current st = (if st = [] then NORMAL else last st)"

definition ctx_inQuotes :: "LexerState list \<Rightarrow> bool" where
  "ctx_inQuotes st = (ctx_current st = SINGLE_QUOTED \<or> ctx_current st = DOUBLE_QUOTED)"

definition ctx_inSingleQuote :: "LexerState list \<Rightarrow> bool" where
  "ctx_inSingleQuote st = (ctx_current st = SINGLE_QUOTED)"

definition ctx_inDoubleQuote :: "LexerState list \<Rightarrow> bool" where
  "ctx_inDoubleQuote st = (ctx_current st = DOUBLE_QUOTED)"

definition ctx_push :: "LexerState list \<Rightarrow> LexerState \<Rightarrow> LexerState list" where
  "ctx_push st s = st @ [s]"

definition ctx_pop :: "LexerState list \<Rightarrow> LexerState list" where
  "ctx_pop st = (if length st > 1 then butlast st else st)"

definition ctx_reset :: "LexerState list" where
  "ctx_reset = [NORMAL]"

subsection \<open>The source reader (source-reader.ts)\<close>

record StringSourceReader =
  src_input :: string
  src_pos :: nat
  src_line :: nat
  src_column :: nat
  src_markState :: "(nat \<times> nat \<times> nat) option"

definition new_StringSourceReader :: "string \<Rightarrow> StringSourceReader" where
  "new_StringSourceReader inp =
     \<lparr>src_input = inp, src_pos = 0, src_line = 1, src_column = 1, src_markState = None\<rparr>"

definition src_eof :: "StringSourceReader \<Rightarrow> bool" where
  "src_eof r = (src_pos r \<ge> length (src_input r))"

definition src_position :: "StringSourceReader \<Rightarrow> SourcePosition" where
  "src_position r =
     \<lparr>pos_line = src_line r, pos_column = src_column r, pos_offset = src_pos r\<rparr>"

text \<open>\<open>peek\<close> returns the end-of-input character \<open>NUL\<close> past the end of the input.\<close>

definition src_peek :: "StringSourceReader \<Rightarrow> nat \<Rightarrow> char" where
  "src_peek r k =
     (let idx = src_pos r + k in
      if idx < length (src_input r) then src_input r ! idx else NUL)"

definition src_advance :: "StringSourceReader \<Rightarrow> char \<times> StringSourceReader" where
  "src_advance r =
     (if src_eof r then (NUL, r)
      else
        (let ch = src_input r ! src_pos r in
         (ch,
          if ch = LF
          then r\<lparr>src_pos := src_pos r + 1, src_line := src_line r + 1, src_column := 1\<rparr>
          else r\<lparr>src_pos := src_pos r + 1, src_column := src_column r + 1\<rparr>)))"

definition src_mark :: "StringSourceReader \<Rightarrow> StringSourceReader" where
  "src_mark r = r\<lparr>src_markState := Some (src_pos r, src_line r, src_column r)\<rparr>"

definition src_reset :: "StringSourceReader \<Rightarrow> StringSourceReader" where
  "src_reset r =
     (case src_markState r of
        Some (p, l, c) \<Rightarrow>
          r\<lparr>src_pos := p, src_line := l, src_column := c, src_markState := None\<rparr>
      | None \<Rightarrow> r)"

text \<open>
  The loops of the scanner stop at the end of the input and consume a character in each
  round. \<open>src_left\<close>, the number of characters not yet consumed, is their measure.
\<close>

definition src_left :: "StringSourceReader \<Rightarrow> nat" where
  "src_left r = length (src_input r) - src_pos r"

lemma src_left_advance [simp]:
  "\<not> src_eof r \<Longrightarrow> src_left (snd (src_advance r)) < src_left r"
  by (auto simp: src_left_def src_advance_def src_eof_def Let_def)

lemma src_left_advance_le:
  "src_left (snd (src_advance r)) \<le> src_left r"
  by (auto simp: src_left_def src_advance_def src_eof_def Let_def)

lemma src_left_advance2 [simp]:
  "\<not> src_eof r \<Longrightarrow> src_left (snd (src_advance (snd (src_advance r)))) < src_left r"
  by (rule le_less_trans [OF src_left_advance_le src_left_advance])

lemma src_left_advance_trans:
  "src_left r' \<le> src_left (snd (src_advance r)) \<Longrightarrow> src_left r' \<le> src_left r"
  by (rule le_trans [OF _ src_left_advance_le])

subsection \<open>The scanner (scanner.ts)\<close>

text \<open>
  The scanner owns a reader and a state stack. Its \<open>debug\<close> flag only prints tokens and
  is left out.
\<close>

record Scanner =
  source :: StringSourceReader
  stateCtx :: "LexerState list"

definition new_Scanner :: "string \<Rightarrow> Scanner" where
  "new_Scanner inp = \<lparr>source = new_StringSourceReader inp, stateCtx = [NORMAL]\<rparr>"

record CharProcessResult =
  cpr_chars :: string
  cpr_flags :: TokenFlagsObject
  cpr_done :: bool

definition mergeFlags :: "TokenFlagsObject \<Rightarrow> TokenFlagsObject \<Rightarrow> TokenFlagsObject" where
  "mergeFlags a b =
     \<lparr>quoted = (quoted a \<or> quoted b),
      singleQuoted = (singleQuoted a \<or> singleQuoted b),
      doubleQuoted = (doubleQuoted a \<or> doubleQuoted b),
      containsExpansion = (containsExpansion a \<or> containsExpansion b),
      containsGlob = (containsGlob a \<or> containsGlob b)\<rparr>"

definition isSpecialChar :: "char \<Rightarrow> bool" where
  "isSpecialChar c =
     (c \<in> set [SPACE, TAB, LF, CHR ''|'', CHR ''<'', CHR ''>'', CHR ''('', CHR '')'',
               DQUOTE, SQUOTE, BACKSLASH, CHR ''*'', CHR ''?'', CHR ''['', CHR ''#''])"

definition isWordBoundary :: "char \<Rightarrow> bool" where
  "isWordBoundary c = (c \<in> set WORD_BOUNDARY_CHARS \<or> c = NUL)"

definition makeToken ::
  "Scanner \<Rightarrow> TokenKind \<Rightarrow> string \<Rightarrow> SourcePosition \<Rightarrow> TokenFlagsObject \<Rightarrow> Token" where
  "makeToken sc k spelling start fl =
     \<lparr>tok_kind = k, tok_spelling = spelling,
      tok_span = \<lparr>span_start = start, span_end = src_position (source sc)\<rparr>,
      tok_flags = fl\<rparr>"

text \<open>
  \<open>NUMBER_PATTERN\<close> is \<open>/^[0-9]+$/\<close> and \<open>NAME_PATTERN\<close> is
  \<open>/^[a-zA-Z_][a-zA-Z0-9_-]*$/\<close>.
\<close>

definition isDigit :: "char \<Rightarrow> bool" where
  "isDigit c = (c \<in> set ''0123456789'')"

definition isNameStart :: "char \<Rightarrow> bool" where
  "isNameStart c =
     (c \<in> set ''abcdefghijklmnopqrstuvwxyzABCDEFGHIJKLMNOPQRSTUVWXYZ_'')"

definition isNameChar :: "char \<Rightarrow> bool" where
  "isNameChar c = (isNameStart c \<or> isDigit c \<or> c = CHR ''-'')"

definition NUMBER_PATTERN :: "string \<Rightarrow> bool" where
  "NUMBER_PATTERN s = (s \<noteq> [] \<and> list_all isDigit s)"

definition NAME_PATTERN :: "string \<Rightarrow> bool" where
  "NAME_PATTERN s = (case s of [] \<Rightarrow> False | c # cs \<Rightarrow> isNameStart c \<and> list_all isNameChar cs)"

definition classifyWord ::
  "Scanner \<Rightarrow> string \<Rightarrow> SourcePosition \<Rightarrow> TokenFlagsObject \<Rightarrow> Token" where
  "classifyWord sc spelling start fl =
     (if NUMBER_PATTERN spelling then makeToken sc TK_NUMBER spelling start fl
      else if NAME_PATTERN spelling then makeToken sc TK_NAME spelling start fl
      else makeToken sc TK_WORD spelling start fl)"

subsubsection \<open>Whitespace and comments\<close>

function skipWhitespace :: "StringSourceReader \<Rightarrow> StringSourceReader" where
  "skipWhitespace r =
     (if \<not> src_eof r then
        (let c = src_peek r 0 in
         if c = SPACE \<or> c = TAB then skipWhitespace (snd (src_advance r))
         else if c = BACKSLASH \<and> src_peek r 1 = LF
           then skipWhitespace (snd (src_advance (snd (src_advance r))))
         else r)
      else r)"
  by pat_completeness auto
termination
  by (relation "measure src_left") auto

declare skipWhitespace.simps [simp del]

function readComment_loop :: "StringSourceReader \<Rightarrow> string \<Rightarrow> string \<times> StringSourceReader" where
  "readComment_loop r spelling =
     (if \<not> src_eof r \<and> src_peek r 0 \<noteq> LF
      then readComment_loop (snd (src_advance r)) (spelling @ [fst (src_advance r)])
      else (spelling, r))"
  by pat_completeness auto
termination
  by (relation "measure (\<lambda>(r, s). src_left r)") auto

declare readComment_loop.simps [simp del]

definition readComment :: "Scanner \<Rightarrow> SourcePosition \<Rightarrow> Token \<times> Scanner" where
  "readComment sc start =
     (case readComment_loop (source sc) [] of
        (spelling, r) \<Rightarrow>
          (let sc1 = sc\<lparr>source := r\<rparr> in
           (makeToken sc1 TK_COMMENT spelling start createEmptyFlags, sc1)))"

subsubsection \<open>Words: the fast path\<close>

function fastPath_loop :: "StringSourceReader \<Rightarrow> string \<Rightarrow> string \<times> StringSourceReader" where
  "fastPath_loop r spelling =
     (if \<not> src_eof r then
        (let c = src_peek r 0 in
         if isSpecialChar c then (spelling, r)
         else fastPath_loop (snd (src_advance r)) (spelling @ [fst (src_advance r)]))
      else (spelling, r))"
  by pat_completeness auto
termination
  by (relation "measure (\<lambda>(r, s). src_left r)") auto

declare fastPath_loop.simps [simp del]

definition tryFastPath :: "Scanner \<Rightarrow> SourcePosition \<Rightarrow> Token option \<times> Scanner" where
  "tryFastPath sc start =
     (case fastPath_loop (src_mark (source sc)) [] of
        (spelling, r) \<Rightarrow>
          if length spelling = 0 then (None, sc\<lparr>source := src_reset r\<rparr>)
          else
            (let next = src_peek r 0 in
             if isWordBoundary next
             then (let sc1 = sc\<lparr>source := r\<rparr> in
                   (Some (classifyWord sc1 spelling start createEmptyFlags), sc1))
             else (None, sc\<lparr>source := src_reset r\<rparr>)))"

subsubsection \<open>Words: the handlers of the slow path\<close>

definition result :: "string \<Rightarrow> TokenFlagsObject \<Rightarrow> CharProcessResult" where
  "result cs fl = \<lparr>cpr_chars = cs, cpr_flags = fl, cpr_done = False\<rparr>"

definition handleGlobChar :: "Scanner \<Rightarrow> char \<Rightarrow> CharProcessResult \<times> Scanner" where
  "handleGlobChar sc c =
     (result [c] (createEmptyFlags\<lparr>containsGlob := True\<rparr>),
      sc\<lparr>source := snd (src_advance (source sc))\<rparr>)"

definition handleSingleQuote :: "Scanner \<Rightarrow> CharProcessResult \<times> Scanner" where
  "handleSingleQuote sc =
     (if ctx_inSingleQuote (stateCtx sc)
      then (result [] createEmptyFlags,
            sc\<lparr>stateCtx := ctx_pop (stateCtx sc), source := snd (src_advance (source sc))\<rparr>)
      else (result [] (createEmptyFlags\<lparr>singleQuoted := True, quoted := True\<rparr>),
            sc\<lparr>stateCtx := ctx_push (stateCtx sc) SINGLE_QUOTED,
               source := snd (src_advance (source sc))\<rparr>))"

definition handleDoubleQuote :: "Scanner \<Rightarrow> CharProcessResult \<times> Scanner" where
  "handleDoubleQuote sc =
     (if ctx_inDoubleQuote (stateCtx sc)
      then (result [] createEmptyFlags,
            sc\<lparr>stateCtx := ctx_pop (stateCtx sc), source := snd (src_advance (source sc))\<rparr>)
      else (result [] (createEmptyFlags\<lparr>doubleQuoted := True, quoted := True\<rparr>),
            sc\<lparr>stateCtx := ctx_push (stateCtx sc) DOUBLE_QUOTED,
               source := snd (src_advance (source sc))\<rparr>))"

definition handleEscape :: "Scanner \<Rightarrow> CharProcessResult \<times> Scanner" where
  "handleEscape sc =
     (let r1 = snd (src_advance (source sc)); next = src_peek r1 0 in
      if src_eof r1 \<or> next = NUL then (result [BACKSLASH] createEmptyFlags, sc\<lparr>source := r1\<rparr>)
      else if next = LF
        then (result [] createEmptyFlags, sc\<lparr>source := snd (src_advance r1)\<rparr>)
      else if ctx_inDoubleQuote (stateCtx sc) then
        (if next \<in> set [DQUOTE, BACKSLASH]
         then (result [next] createEmptyFlags, sc\<lparr>source := snd (src_advance r1)\<rparr>)
         else (result [BACKSLASH] createEmptyFlags, sc\<lparr>source := r1\<rparr>))
      else (result [next] createEmptyFlags, sc\<lparr>source := snd (src_advance r1)\<rparr>))"

function skipQuoted_loop ::
  "StringSourceReader \<Rightarrow> char \<Rightarrow> string \<Rightarrow> string \<times> StringSourceReader" where
  "skipQuoted_loop r quoteChar res =
     (if \<not> src_eof r \<and> src_peek r 0 \<noteq> quoteChar then
        (let c = src_peek r 0;
             res1 = res @ [fst (src_advance r)];
             r1 = snd (src_advance r) in
         if c = BACKSLASH \<and> quoteChar = DQUOTE \<and> \<not> src_eof r1
         then skipQuoted_loop (snd (src_advance r1)) quoteChar (res1 @ [fst (src_advance r1)])
         else skipQuoted_loop r1 quoteChar res1)
      else (res, r))"
  by pat_completeness auto
termination
  by (relation "measure (\<lambda>(r, q, s). src_left r)") auto

declare skipQuoted_loop.simps [simp del]

definition skipQuotedContent :: "StringSourceReader \<Rightarrow> char \<Rightarrow> string \<times> StringSourceReader" where
  "skipQuotedContent r quoteChar =
     (case skipQuoted_loop (snd (src_advance r)) quoteChar [fst (src_advance r)] of
        (res, r2) \<Rightarrow>
          if src_peek r2 0 = quoteChar
          then (res @ [fst (src_advance r2)], snd (src_advance r2))
          else (res, r2))"

lemma skipQuoted_loop_left:
  "src_left (snd (skipQuoted_loop r quoteChar res)) \<le> src_left r"
proof (induction r quoteChar res rule: skipQuoted_loop.induct)
  case (1 r quoteChar res)
  show ?case
  proof (cases "\<not> src_eof r \<and> src_peek r 0 \<noteq> quoteChar")
    case False
    then show ?thesis by (subst skipQuoted_loop.simps) auto
  next
    case True
    let ?r1 = "snd (src_advance r)"
    show ?thesis
    proof (cases "src_peek r 0 = BACKSLASH \<and> quoteChar = DQUOTE \<and> \<not> src_eof ?r1")
      case esc: True
      show ?thesis
        using True esc
          src_left_advance_trans [OF src_left_advance_trans [OF "1.IH"(1)[OF True refl refl refl esc]]]
        by (subst skipQuoted_loop.simps) (simp add: Let_def)
    next
      case noesc: False
      show ?thesis
        using True noesc src_left_advance_trans [OF "1.IH"(2)[OF True refl refl refl noesc]]
        by (subst skipQuoted_loop.simps) (auto simp add: Let_def)
    qed
  qed
qed

lemma skipQuotedContent_left:
  "\<not> src_eof r \<Longrightarrow> src_left (snd (skipQuotedContent r quoteChar)) < src_left r"
proof -
  assume ne: "\<not> src_eof r"
  obtain res r2 where l: "skipQuoted_loop (snd (src_advance r)) quoteChar [fst (src_advance r)] = (res, r2)"
    by (cases "skipQuoted_loop (snd (src_advance r)) quoteChar [fst (src_advance r)]")
  have "src_left r2 \<le> src_left (snd (src_advance r))"
    using skipQuoted_loop_left[of "snd (src_advance r)" quoteChar "[fst (src_advance r)]"] l by simp
  also have "\<dots> < src_left r" using ne by simp
  finally have a: "src_left r2 < src_left r" .
  have b: "src_left (snd (src_advance r2)) < src_left r"
    by (rule le_less_trans [OF src_left_advance_le a])
  show ?thesis using a b l by (simp add: skipQuotedContent_def)
qed

text \<open>
  The loop of \<open>readCommandSubstitution\<close>, with its locals \<open>depth\<close> and \<open>result\<close>.
\<close>

function commandSub_loop ::
  "StringSourceReader \<Rightarrow> nat \<Rightarrow> string \<Rightarrow> string \<times> StringSourceReader" where
  "commandSub_loop r depth res =
     (if depth > 0 \<and> \<not> src_eof r then
        (let c = src_peek r 0 in
         if c = CHR ''(''
           then commandSub_loop (snd (src_advance r)) (depth + 1) (res @ [fst (src_advance r)])
         else if c = CHR '')''
           then commandSub_loop (snd (src_advance r)) (depth - 1) (res @ [fst (src_advance r)])
         else if c = SQUOTE \<or> c = DQUOTE
           then commandSub_loop (snd (skipQuotedContent r c)) depth
                  (res @ fst (skipQuotedContent r c))
         else if c = BACKSLASH \<and> \<not> src_eof r
           then (let res1 = res @ [fst (src_advance r)]; r1 = snd (src_advance r) in
                 if \<not> src_eof r1
                 then commandSub_loop (snd (src_advance r1)) depth (res1 @ [fst (src_advance r1)])
                 else commandSub_loop r1 depth res1)
         else commandSub_loop (snd (src_advance r)) depth (res @ [fst (src_advance r)]))
      else (res, r))"
  by pat_completeness auto
termination
  by (relation "measure (\<lambda>(r, d, s). src_left r)") (auto simp: skipQuotedContent_left)

declare commandSub_loop.simps [simp del]

definition readCommandSubstitution :: "Scanner \<Rightarrow> CharProcessResult \<times> Scanner" where
  "readCommandSubstitution sc =
     (case commandSub_loop (snd (src_advance (source sc))) 1 [fst (src_advance (source sc))] of
        (res, r) \<Rightarrow>
          (result res (createEmptyFlags\<lparr>containsExpansion := True\<rparr>), sc\<lparr>source := r\<rparr>))"

text \<open>\<open>readCharacterClass\<close>: the loop that reads up to the closing bracket, then the whole.\<close>

function charClass_loop :: "StringSourceReader \<Rightarrow> string \<Rightarrow> string \<times> StringSourceReader" where
  "charClass_loop r res =
     (if \<not> src_eof r \<and> src_peek r 0 \<noteq> CHR '']''
      then charClass_loop (snd (src_advance r)) (res @ [fst (src_advance r)])
      else (res, r))"
  by pat_completeness auto
termination
  by (relation "measure (\<lambda>(r, s). src_left r)") auto

declare charClass_loop.simps [simp del]

definition readCharacterClass :: "Scanner \<Rightarrow> CharProcessResult \<times> Scanner" where
  "readCharacterClass sc =
     (let r0 = source sc;
          res1 = [fst (src_advance r0)];
          r1 = snd (src_advance r0);
          (res2, r2) =
            (if src_peek r1 0 = CHR ''!'' \<or> src_peek r1 0 = CHR ''^''
             then (res1 @ [fst (src_advance r1)], snd (src_advance r1)) else (res1, r1));
          (res3, r3) =
            (if src_peek r2 0 = CHR '']''
             then (res2 @ [fst (src_advance r2)], snd (src_advance r2)) else (res2, r2));
          (res4, r4) = charClass_loop r3 res3;
          (res5, r5) =
            (if src_peek r4 0 = CHR '']''
             then (res4 @ [fst (src_advance r4)], snd (src_advance r4)) else (res4, r4))
      in (result res5 (createEmptyFlags\<lparr>containsGlob := True\<rparr>), sc\<lparr>source := r5\<rparr>))"

definition processChar :: "Scanner \<Rightarrow> char \<Rightarrow> CharProcessResult \<times> Scanner" where
  "processChar sc c =
     (if c = SQUOTE \<and> \<not> ctx_inDoubleQuote (stateCtx sc) then handleSingleQuote sc
      else if c = DQUOTE \<and> \<not> ctx_inSingleQuote (stateCtx sc) then handleDoubleQuote sc
      else if c = BACKSLASH \<and> \<not> ctx_inSingleQuote (stateCtx sc) then handleEscape sc
      else if c = CHR ''('' \<and> \<not> ctx_inSingleQuote (stateCtx sc) then readCommandSubstitution sc
      else if (c = CHR ''*'' \<or> c = CHR ''?'') \<and> \<not> ctx_inQuotes (stateCtx sc)
        then handleGlobChar sc c
      else if c = CHR ''['' \<and> \<not> ctx_inQuotes (stateCtx sc) then readCharacterClass sc
      else (result [c] createEmptyFlags, sc\<lparr>source := snd (src_advance (source sc))\<rparr>))"

subsubsection \<open>Every handler of the slow path consumes a character\<close>

lemma commandSub_loop_left:
  "src_left (snd (commandSub_loop r depth res)) \<le> src_left r"
proof (induction r depth res rule: commandSub_loop.induct)
  case (1 r depth res)
  show ?case
  proof (cases "depth > 0 \<and> \<not> src_eof r")
    case False
    then show ?thesis by (subst commandSub_loop.simps) auto
  next
    case True
    note ne = True
    show ?thesis
    proof (cases "src_peek r 0 = CHR ''(''")
      case c1: True
      show ?thesis
        using ne c1 src_left_advance_trans [OF "1.IH"(1)[OF ne refl c1]]
        by (subst commandSub_loop.simps) (simp add: Let_def)
    next
      case n1: False
      show ?thesis
      proof (cases "src_peek r 0 = CHR '')''")
        case c2: True
        show ?thesis
          using ne n1 c2 src_left_advance_trans [OF "1.IH"(2)[OF ne refl n1 c2]]
          by (subst commandSub_loop.simps) (simp add: Let_def)
      next
        case n2: False
        show ?thesis
        proof (cases "src_peek r 0 = SQUOTE \<or> src_peek r 0 = DQUOTE")
          case c3: True
          have "src_left (snd (skipQuotedContent r (src_peek r 0))) \<le> src_left r"
            using skipQuotedContent_left[of r "src_peek r 0"] ne by simp
          from le_trans [OF "1.IH"(3)[OF ne refl n1 n2 c3] this] show ?thesis
            using ne n1 n2 c3 by (subst commandSub_loop.simps) (auto simp add: Let_def)
        next
          case n3: False
          show ?thesis
          proof (cases "src_peek r 0 = BACKSLASH \<and> \<not> src_eof r")
            case c4: True
            let ?r1 = "snd (src_advance r)"
            show ?thesis
            proof (cases "\<not> src_eof ?r1")
              case e: True
              show ?thesis
                using ne n1 n2 n3 c4 e
                  src_left_advance_trans [OF src_left_advance_trans
                    [OF "1.IH"(4)[OF ne refl n1 n2 n3 c4 refl refl e]]]
                by (subst commandSub_loop.simps) (simp add: Let_def)
            next
              case e: False
              show ?thesis
                using ne n1 n2 n3 c4 e
                  src_left_advance_trans [OF "1.IH"(5)[OF ne refl n1 n2 n3 c4 refl refl e]]
                by (subst commandSub_loop.simps) (simp add: Let_def)
            qed
          next
            case n4: False
            show ?thesis
              using ne n1 n2 n3 n4 src_left_advance_trans [OF "1.IH"(6)[OF ne refl n1 n2 n3 n4]]
              by (subst commandSub_loop.simps) (auto simp add: Let_def)
          qed
        qed
      qed
    qed
  qed
qed

lemma charClass_loop_left:
  "src_left (snd (charClass_loop r res)) \<le> src_left r"
proof (induction r res rule: charClass_loop.induct)
  case (1 r res)
  show ?case
  proof (cases "\<not> src_eof r \<and> src_peek r 0 \<noteq> CHR '']''")
    case True
    have "src_left (snd (charClass_loop (snd (src_advance r)) (res @ [fst (src_advance r)])))
            \<le> src_left r"
      by (rule src_left_advance_trans [OF "1.IH"[OF True]])
    then show ?thesis
      using True by (subst charClass_loop.simps) simp
  next
    case False
    then show ?thesis by (subst charClass_loop.simps) auto
  qed
qed

lemma readCommandSubstitution_left:
  "\<not> src_eof (source sc) \<Longrightarrow>
   src_left (source (snd (readCommandSubstitution sc))) < src_left (source sc)"
proof -
  assume ne: "\<not> src_eof (source sc)"
  let ?r1 = "snd (src_advance (source sc))"
  have "src_left (snd (commandSub_loop ?r1 1 [fst (src_advance (source sc))])) \<le> src_left ?r1"
    by (rule commandSub_loop_left)
  also have "\<dots> < src_left (source sc)" using ne by simp
  finally show ?thesis
    by (simp add: readCommandSubstitution_def case_prod_beta)
qed

lemma opt_advance_left:
  "src_left (snd (if b then (x, snd (src_advance r)) else (y, r))) \<le> src_left r"
  by (simp add: src_left_advance_le)

lemma readCharacterClass_left:
  "\<not> src_eof (source sc) \<Longrightarrow>
   src_left (source (snd (readCharacterClass sc))) < src_left (source sc)"
proof -
  assume ne: "\<not> src_eof (source sc)"
  define r0 where "r0 = source sc"
  define r1 where "r1 = snd (src_advance r0)"
  define p2 where "p2 = (if src_peek r1 0 = CHR ''!'' \<or> src_peek r1 0 = CHR ''^''
             then ([fst (src_advance r0)] @ [fst (src_advance r1)], snd (src_advance r1))
             else ([fst (src_advance r0)], r1))"
  define p3 where "p3 = (if src_peek (snd p2) 0 = CHR '']''
             then (fst p2 @ [fst (src_advance (snd p2))], snd (src_advance (snd p2)))
             else (fst p2, snd p2))"
  define p4 where "p4 = charClass_loop (snd p3) (fst p3)"
  define p5 where "p5 = (if src_peek (snd p4) 0 = CHR '']''
             then (fst p4 @ [fst (src_advance (snd p4))], snd (src_advance (snd p4)))
             else (fst p4, snd p4))"
  have e: "source (snd (readCharacterClass sc)) = snd p5"
    unfolding readCharacterClass_def Let_def p5_def p4_def p3_def p2_def r1_def r0_def
    by (simp add: case_prod_beta)
  have "src_left (snd p5) \<le> src_left (snd p4)" unfolding p5_def by (rule opt_advance_left)
  also have "\<dots> \<le> src_left (snd p3)" unfolding p4_def by (rule charClass_loop_left)
  also have "\<dots> \<le> src_left (snd p2)" unfolding p3_def by (rule opt_advance_left)
  also have "\<dots> \<le> src_left r1" unfolding p2_def by (rule opt_advance_left)
  also have "\<dots> < src_left r0" unfolding r1_def using ne by (simp add: r0_def)
  finally show ?thesis by (simp add: e r0_def)
qed

lemma handleEscape_left:
  "\<not> src_eof (source sc) \<Longrightarrow>
   src_left (source (snd (handleEscape sc))) < src_left (source sc)"
proof -
  assume ne: "\<not> src_eof (source sc)"
  let ?r1 = "snd (src_advance (source sc))"
  have a: "src_left ?r1 < src_left (source sc)" using ne by simp
  have b: "src_left (snd (src_advance ?r1)) < src_left (source sc)"
    by (rule le_less_trans [OF src_left_advance_le a])
  show ?thesis using a b by (simp add: handleEscape_def Let_def)
qed

lemma processChar_left:
  "\<not> src_eof (source sc) \<Longrightarrow>
   src_left (source (snd (processChar sc c))) < src_left (source sc)"
  by (simp add: processChar_def handleSingleQuote_def handleDoubleQuote_def handleGlobChar_def
        handleEscape_left readCommandSubstitution_left readCharacterClass_left)

subsubsection \<open>Words: the slow path\<close>

text \<open>
  The loop of \<open>readComplexWord\<close>, with its locals \<open>spelling\<close> and \<open>flags\<close>.
\<close>

function readComplexWord_loop ::
  "Scanner \<Rightarrow> string \<Rightarrow> TokenFlagsObject \<Rightarrow> string \<times> TokenFlagsObject \<times> Scanner" where
  "readComplexWord_loop sc spelling fl =
     (if \<not> src_eof (source sc) then
        (let c = src_peek (source sc) 0 in
         if \<not> ctx_inQuotes (stateCtx sc) \<and> isWordBoundary c then (spelling, fl, sc)
         else
           (let res = fst (processChar sc c);
                sc1 = snd (processChar sc c);
                spelling1 = spelling @ cpr_chars res;
                fl1 = mergeFlags fl (cpr_flags res) in
            if cpr_done res then (spelling1, fl1, sc1)
            else readComplexWord_loop sc1 spelling1 fl1))
      else (spelling, fl, sc))"
  by pat_completeness auto
termination
  by (relation "measure (\<lambda>(sc, s, f). src_left (source sc))") (auto simp: processChar_left)

declare readComplexWord_loop.simps [simp del]

definition readComplexWord :: "Scanner \<Rightarrow> SourcePosition \<Rightarrow> Token \<times> Scanner" where
  "readComplexWord sc start =
     (case readComplexWord_loop (sc\<lparr>stateCtx := ctx_reset\<rparr>) [] createEmptyFlags of
        (spelling, fl, sc1) \<Rightarrow> (classifyWord sc1 spelling start fl, sc1))"

definition readWord :: "Scanner \<Rightarrow> SourcePosition \<Rightarrow> Token \<times> Scanner" where
  "readWord sc start =
     (case tryFastPath sc start of
        (Some fastResult, sc1) \<Rightarrow> (fastResult, sc1)
      | (None, sc1) \<Rightarrow> readComplexWord sc1 start)"

subsubsection \<open>Operators and the next token\<close>

text \<open>
  \<open>tryMatchOperator\<close> looks the two characters ahead up in \<open>OPERATORS\<close> (a table that is
  empty in this language) and consumes the pattern it finds.
\<close>

fun advance_n :: "nat \<Rightarrow> StringSourceReader \<Rightarrow> StringSourceReader" where
  "advance_n 0 r = r"
| "advance_n (Suc n) r = advance_n n (snd (src_advance r))"

definition startsWith :: "string \<Rightarrow> string \<Rightarrow> bool" where
  "startsWith s pat = (take (length pat) s = pat)"

definition tryMatchOperator :: "Scanner \<Rightarrow> SourcePosition \<Rightarrow> (Token \<times> Scanner) option" where
  "tryMatchOperator sc start =
     (let chars = [src_peek (source sc) 0, src_peek (source sc) 1] in
      case find (\<lambda>(pat, k). startsWith chars pat) OPERATORS of
        Some (pat, k) \<Rightarrow>
          (let sc1 = sc\<lparr>source := advance_n (length pat) (source sc)\<rparr> in
           Some (makeToken sc1 k pat start createEmptyFlags, sc1))
      | None \<Rightarrow> None)"

definition advanceToken ::
  "Scanner \<Rightarrow> TokenKind \<Rightarrow> string \<Rightarrow> SourcePosition \<Rightarrow> Token \<times> Scanner" where
  "advanceToken sc k spelling start =
     (let sc1 = sc\<lparr>source := snd (src_advance (source sc))\<rparr> in
      (makeToken sc1 k spelling start createEmptyFlags, sc1))"

definition nextToken :: "Scanner \<Rightarrow> SourcePosition \<Rightarrow> Token \<times> Scanner" where
  "nextToken sc start =
     (let c0 = src_peek (source sc) 0 in
      if src_eof (source sc) \<or> c0 = NUL then (makeToken sc TK_EOF [] start createEmptyFlags, sc)
      else if c0 = CHR ''#'' then readComment sc start
      else if c0 = LF then advanceToken sc TK_NEWLINE [LF] start
      else
        (case tryMatchOperator sc start of
           Some opToken \<Rightarrow> opToken
         | None \<Rightarrow>
             (case map_of SINGLE_CHAR_OPS c0 of
                Some singleOp \<Rightarrow> advanceToken sc singleOp [c0] start
              | None \<Rightarrow>
                  if c0 = CHR ''('' then advanceToken sc TK_LPAREN ''('' start
                  else if c0 = CHR '')'' then advanceToken sc TK_RPAREN '')'' start
                  else readWord sc start)))"

definition getToken :: "Scanner \<Rightarrow> Token \<times> Scanner" where
  "getToken sc =
     (let sc1 = sc\<lparr>source := skipWhitespace (source sc)\<rparr>;
          start = src_position (source sc1)
      in nextToken sc1 start)"

text \<open>
  \<open>tokenize\<close> is a \<open>do ... while\<close> loop that ends on the first end-of-input token. It is
  defined as a partial function, so that not returning would be the value \<open>None\<close>. It
  returns the tokens and the scanner as the loop leaves it.
\<close>

partial_function (option) tokenize_loop :: "Scanner \<Rightarrow> Token list \<Rightarrow> (Token list \<times> Scanner) option" where
  "tokenize_loop sc tokens =
     (let token = fst (getToken sc); sc1 = snd (getToken sc); tokens1 = tokens @ [token] in
      if tok_kind token \<noteq> TK_EOF then tokenize_loop sc1 tokens1
      else Some (tokens1, sc1))"

definition tokenize :: "Scanner \<Rightarrow> (Token list \<times> Scanner) option" where
  "tokenize sc = tokenize_loop sc []"

declare tokenize_loop.simps [code]

text \<open>
  To state what a token sequence depends on: \<open>same_cursor\<close> holds of two scanners that
  read the same input at the same place (offset, line and column). They may differ in
  what the scanner keeps to itself between tokens, the state stack and the reader's
  mark; \<open>set_mark\<close> changes the latter.
\<close>

definition same_cursor :: "Scanner \<Rightarrow> Scanner \<Rightarrow> bool" where
  "same_cursor a b =
     (src_input (source a) = src_input (source b) \<and> src_pos (source a) = src_pos (source b)
      \<and> src_line (source a) = src_line (source b)
      \<and> src_column (source a) = src_column (source b))"

definition set_mark :: "(nat \<times> nat \<times> nat) option \<Rightarrow> Scanner \<Rightarrow> Scanner" where
  "set_mark m sc = sc\<lparr>source := (source sc)\<lparr>src_markState := m\<rparr>\<rparr>"

text \<open>\<open>hide m st sc\<close> is \<open>sc\<close> with the mark \<open>m\<close> and the state stack \<open>st\<close>.\<close>

definition hide :: "(nat \<times> nat \<times> nat) option \<Rightarrow> LexerState list \<Rightarrow> Scanner \<Rightarrow> Scanner" where
  "hide m st sc = (set_mark m sc)\<lparr>stateCtx := st\<rparr>"

text \<open>The offsets at which the span of a token starts and ends.\<close>

definition tokenStart :: "Token \<Rightarrow> nat" where
  "tokenStart t = pos_offset (span_start (tok_span t))"

definition tokenEnd :: "Token \<Rightarrow> nat" where
  "tokenEnd t = pos_offset (span_end (tok_span t))"

section \<open>Parser (packages/compiler/src/parser)\<close>

subsection \<open>Syntax tree (ast.ts)\<close>

text \<open>
  The node classes of ast.ts, each with its span. A command-substitution part holds the
  program parsed from its inner text, so the node types are mutually recursive.
\<close>

datatype Program = Program SourceSpan Pipeline
  and Pipeline = Pipeline SourceSpan "SimpleCommand list"
  and SimpleCommand = SimpleCommand SourceSpan Word "Word list" "Redirection list"
  and Word = Word SourceSpan "WordPart list" bool
  and WordPart =
      LiteralPart SourceSpan string
    | GlobPart SourceSpan string
    | CommandSubPart SourceSpan Program
  and Redirection = Redirection SourceSpan RedirectionKind Word




subsection \<open>Diagnostics and syntax errors (error-reporter.ts, syntax-error.ts)\<close>

datatype DiagnosticSeverity = Severity_error | Severity_warning | Severity_info

record Diagnostic =
  diag_severity :: DiagnosticSeverity
  diag_message :: string
  diag_span :: SourceSpan
  diag_code :: "string option"

text \<open>The reporter is the list of the diagnostics it has collected, in order.\<close>

definition reportError :: "Diagnostic list \<Rightarrow> string \<Rightarrow> SourceSpan \<Rightarrow> Diagnostic list" where
  "reportError diagnostics message sp =
     diagnostics @ [\<lparr>diag_severity = Severity_error, diag_message = message, diag_span = sp,
                      diag_code = None\<rparr>]"

text \<open>
  The exception classes, with the fields they are built from: the message and the span of
  a \<open>ParseSyntaxError\<close>, what was expected for an \<open>UnexpectedEOFError\<close>, what was found
  and what was expected for an \<open>UnexpectedTokenError\<close>, the span of an
  \<open>UnmatchedParenError\<close>, the quote character of an \<open>UnterminatedQuoteError\<close>. A thrown
  exception is the left injection of a result, together with the diagnostics of the
  shared reporter.
\<close>

datatype ParseError =
    ParseSyntaxError string SourceSpan
  | UnexpectedEOFError string SourceSpan
  | UnexpectedTokenError string string SourceSpan
  | UnmatchedParenError SourceSpan
  | UnterminatedQuoteError char SourceSpan


definition kindName :: "TokenKind \<Rightarrow> string" where
  "kindName k =
     (case k of
        TK_EOF \<Rightarrow> ''EOF'' | TK_ERROR \<Rightarrow> ''ERROR'' | TK_NEWLINE \<Rightarrow> ''NEWLINE''
      | TK_COMMENT \<Rightarrow> ''COMMENT'' | TK_WORD \<Rightarrow> ''WORD'' | TK_NAME \<Rightarrow> ''NAME''
      | TK_NUMBER \<Rightarrow> ''NUMBER'' | TK_PIPE \<Rightarrow> ''PIPE'' | TK_LPAREN \<Rightarrow> ''LPAREN''
      | TK_RPAREN \<Rightarrow> ''RPAREN'' | TK_LESS \<Rightarrow> ''LESS'' | TK_GREAT \<Rightarrow> ''GREAT''
      | TK_COMMAND_SUB \<Rightarrow> ''COMMAND_SUB'' | TK_GLOB \<Rightarrow> ''GLOB'')"

subsection \<open>The parser state (parser.ts)\<close>

record Parser =
  scanner :: Scanner
  errorReporter :: "Diagnostic list"
  currentToken :: Token
  previousTokenPosition :: SourcePosition
  substitutionDepth :: nat

type_synonym 'a parsed = "(ParseError \<times> Diagnostic list) + ('a \<times> Parser)"

definition MAX_SUBSTITUTION_DEPTH :: nat where
  "MAX_SUBSTITUTION_DEPTH = 10"

text \<open>The constructor reads the first token.\<close>

definition new_Parser :: "string \<Rightarrow> Diagnostic list \<Rightarrow> nat \<Rightarrow> Parser" where
  "new_Parser inp reporter depth =
     (let tok = fst (getToken (new_Scanner inp)); sc = snd (getToken (new_Scanner inp)) in
      \<lparr>scanner = sc, errorReporter = reporter, currentToken = tok,
       previousTokenPosition = span_start (tok_span tok), substitutionDepth = depth\<rparr>)"

definition advance :: "Parser \<Rightarrow> Parser" where
  "advance p =
     p\<lparr>previousTokenPosition := span_end (tok_span (currentToken p)),
       currentToken := fst (getToken (scanner p)),
       scanner := snd (getToken (scanner p))\<rparr>"

definition startSpan :: "Parser \<Rightarrow> SourcePosition" where
  "startSpan p = span_start (tok_span (currentToken p))"

definition finishSpan :: "Parser \<Rightarrow> SourcePosition \<Rightarrow> SourceSpan" where
  "finishSpan p start = \<lparr>span_start = start, span_end = previousTokenPosition p\<rparr>"

text \<open>\<open>syntacticError\<close> reports to the shared reporter and always throws.\<close>

definition syntacticError :: "Parser \<Rightarrow> string \<Rightarrow> string \<Rightarrow> ParseError \<times> Diagnostic list" where
  "syntacticError p message expected =
     (let sp = tok_span (currentToken p);
          reporter = reportError (errorReporter p) message sp in
      if tok_kind (currentToken p) = TK_EOF then (UnexpectedEOFError expected sp, reporter)
      else
        (UnexpectedTokenError
           (if tok_spelling (currentToken p) \<noteq> [] then tok_spelling (currentToken p)
            else kindName (tok_kind (currentToken p)))
           expected sp,
         reporter))"

subsection \<open>The word parser (word.ts)\<close>

text \<open>
  Modelled from the spec: \<open>WordParser.parseWord\<close> (\<open>parser/word.ts\<close> is not among the
  sources). By the spec a word is one token of the lexer, which has already joined the
  adjacent fragments, and its parts are literal, glob and command-substitution parts that
  reproduce its text; the lexer flags a token that holds a glob or a substitution. So a
  word token (WORD, NAME or NUMBER) with neither flag is a word of one literal part that
  holds the spelling; the word is quoted when the token is. What the word parser does on
  any other token (a flagged word, a parenthesis, an operator) the spec does not fix: it
  is the parameter \<open>other\<close>. A word parser may run a parser of its own, for a command
  substitution; so it returns an option like the loops below, \<open>None\<close> standing for a
  parse that does not return.
\<close>

type_synonym wordParser = "Parser \<Rightarrow> Word option parsed option"

definition isPlainWordToken :: "Token \<Rightarrow> bool" where
  "isPlainWordToken t =
     (tok_kind t \<in> {TK_WORD, TK_NAME, TK_NUMBER}
      \<and> \<not> containsGlob (tok_flags t) \<and> \<not> containsExpansion (tok_flags t))"

definition parseWord :: "wordParser \<Rightarrow> wordParser" where
  "parseWord other p =
     (let t = currentToken p in
      if isPlainWordToken t
      then Some (Inr (Some (Word (tok_span t) [LiteralPart (tok_span t) (tok_spelling t)]
                              (isQuoted (tok_flags t))),
                      advance p))
      else other p)"

subsection \<open>The command parser (command.ts)\<close>

text \<open>
  The parsers below take the word parser \<open>pw\<close> they were built with. Their loops read
  tokens until a token stops them; they are partial functions, so that a loop that did
  not return would be the value \<open>None\<close>.
\<close>

definition isCommandTerminator :: "Parser \<Rightarrow> bool" where
  "isCommandTerminator p =
     (let k = tok_kind (currentToken p) in k = TK_PIPE \<or> k = TK_NEWLINE \<or> k = TK_EOF)"

definition parseRedirection :: "wordParser \<Rightarrow> Parser \<Rightarrow> Redirection option parsed option" where
  "parseRedirection pw p =
     (let token = currentToken p in
      if tok_kind token = TK_LESS then
        (let startPos = span_start (tok_span token) in
         case pw (advance p) of
           None \<Rightarrow> None
         | Some (Inl e) \<Rightarrow> Some (Inl e)
         | Some (Inr (None, p1)) \<Rightarrow>
             Some (Inl (syntacticError p1 ''Expected filename after <'' ''word''))
         | Some (Inr (Some target, p1)) \<Rightarrow>
             Some (Inr (Some (Redirection
                                \<lparr>span_start = startPos, span_end = previousTokenPosition p1\<rparr>
                                RK_input target), p1)))
      else if tok_kind token = TK_GREAT then
        (let startPos = span_start (tok_span token) in
         case pw (advance p) of
           None \<Rightarrow> None
         | Some (Inl e) \<Rightarrow> Some (Inl e)
         | Some (Inr (None, p1)) \<Rightarrow>
             Some (Inl (syntacticError p1 ''Expected filename after >'' ''word''))
         | Some (Inr (Some target, p1)) \<Rightarrow>
             Some (Inr (Some (Redirection
                                \<lparr>span_start = startPos, span_end = previousTokenPosition p1\<rparr>
                                RK_output target), p1)))
      else Some (Inr (None, p)))"

partial_function (option) parseSimpleCommand_loop ::
  "wordParser \<Rightarrow> Parser \<Rightarrow> Word list \<Rightarrow> Redirection list
     \<Rightarrow> (Word list \<times> Redirection list) parsed option" where
  "parseSimpleCommand_loop pw p args redirections =
     (if \<not> isCommandTerminator p then
        (case parseRedirection pw p of
           None \<Rightarrow> None
         | Some (Inl e) \<Rightarrow> Some (Inl e)
         | Some (Inr (Some redir, p1)) \<Rightarrow>
             parseSimpleCommand_loop pw p1 args (redirections @ [redir])
         | Some (Inr (None, p1)) \<Rightarrow>
             (case pw p1 of
                None \<Rightarrow> None
              | Some (Inl e) \<Rightarrow> Some (Inl e)
              | Some (Inr (Some word, p2)) \<Rightarrow>
                  parseSimpleCommand_loop pw p2 (args @ [word]) redirections
              | Some (Inr (None, p2)) \<Rightarrow> Some (Inr ((args, redirections), p2))))
      else Some (Inr ((args, redirections), p)))"

declare parseSimpleCommand_loop.simps [code]

definition parseSimpleCommand ::
  "wordParser \<Rightarrow> Parser \<Rightarrow> SimpleCommand option parsed option" where
  "parseSimpleCommand pw p =
     (let startPos = span_start (tok_span (currentToken p)) in
      case pw p of
        None \<Rightarrow> None
      | Some (Inl e) \<Rightarrow> Some (Inl e)
      | Some (Inr (None, p1)) \<Rightarrow> Some (Inr (None, p1))
      | Some (Inr (Some name, p1)) \<Rightarrow>
          (case parseSimpleCommand_loop pw p1 [] [] of
             None \<Rightarrow> None
           | Some (Inl e) \<Rightarrow> Some (Inl e)
           | Some (Inr ((args, redirections), p2)) \<Rightarrow>
               Some (Inr (Some (SimpleCommand
                                  \<lparr>span_start = startPos, span_end = previousTokenPosition p2\<rparr>
                                  name args redirections), p2))))"

definition parseCommand ::
  "wordParser \<Rightarrow> Parser \<Rightarrow> SimpleCommand option parsed option" where
  "parseCommand pw p = parseSimpleCommand pw p"

subsection \<open>The statement parser (statement.ts)\<close>

partial_function (option) skipNewlines :: "Parser \<Rightarrow> Parser option" where
  "skipNewlines p =
     (if tok_kind (currentToken p) = TK_NEWLINE then skipNewlines (advance p) else Some p)"

declare skipNewlines.simps [code]

partial_function (option) parsePipeline_loop ::
  "wordParser \<Rightarrow> Parser \<Rightarrow> SimpleCommand list
     \<Rightarrow> SimpleCommand list parsed option" where
  "parsePipeline_loop pw p commands =
     (if tok_kind (currentToken p) = TK_PIPE then
        (case skipNewlines (advance p) of
           None \<Rightarrow> None
         | Some p1 \<Rightarrow>
             (case parseCommand pw p1 of
                None \<Rightarrow> None
              | Some (Inl e) \<Rightarrow> Some (Inl e)
              | Some (Inr (None, p2)) \<Rightarrow>
                  Some (Inl (syntacticError p2 ''Expected command after |'' ''command''))
              | Some (Inr (Some command, p2)) \<Rightarrow>
                  parsePipeline_loop pw p2 (commands @ [command])))
      else Some (Inr (commands, p)))"

declare parsePipeline_loop.simps [code]

definition parsePipeline ::
  "wordParser \<Rightarrow> Parser \<Rightarrow> Pipeline option parsed option" where
  "parsePipeline pw p =
     (let startPos = span_start (tok_span (currentToken p)) in
      case parseCommand pw p of
        None \<Rightarrow> None
      | Some (Inl e) \<Rightarrow> Some (Inl e)
      | Some (Inr (None, p1)) \<Rightarrow> Some (Inr (None, p1))
      | Some (Inr (Some firstCommand, p1)) \<Rightarrow>
          (case parsePipeline_loop pw p1 [firstCommand] of
             None \<Rightarrow> None
           | Some (Inl e) \<Rightarrow> Some (Inl e)
           | Some (Inr (commands, p2)) \<Rightarrow>
               Some (Inr (Some (Pipeline
                                  \<lparr>span_start = startPos, span_end = previousTokenPosition p2\<rparr>
                                  commands), p2))))"

subsection \<open>Programs and substitutions (parser.ts)\<close>

partial_function (option) skipIgnorable :: "Parser \<Rightarrow> Parser option" where
  "skipIgnorable p =
     (if tok_kind (currentToken p) = TK_COMMENT \<or> tok_kind (currentToken p) = TK_NEWLINE
      then skipIgnorable (advance p) else Some p)"

declare skipIgnorable.simps [code]

definition parseProgram ::
  "wordParser \<Rightarrow> Parser \<Rightarrow> Program parsed option" where
  "parseProgram pw p =
     (let startPos = startSpan p in
      case skipIgnorable p of
        None \<Rightarrow> None
      | Some p1 \<Rightarrow>
          (case parsePipeline pw p1 of
             None \<Rightarrow> None
           | Some (Inl e) \<Rightarrow> Some (Inl e)
           | Some (Inr (None, p2)) \<Rightarrow> Some (Inl (syntacticError p2 ''Expected command'' ''command''))
           | Some (Inr (Some pipeline, p2)) \<Rightarrow>
               (case skipIgnorable p2 of
                  None \<Rightarrow> None
                | Some p3 \<Rightarrow>
                    if tok_kind (currentToken p3) \<noteq> TK_EOF
                    then Some (Inl (syntacticError p3 ''Unexpected token after pipeline''
                                      ''end of input''))
                    else Some (Inr (Program (finishSpan p3 startPos) pipeline, p3)))))"

text \<open>
  \<open>parseSubstitution\<close> checks the depth of the parser it is called on and parses the
  inner text with a new parser, one level deeper, that shares the reporter.
\<close>

definition parseSubstitution ::
  "wordParser \<Rightarrow> Parser \<Rightarrow> string \<Rightarrow> Program parsed option" where
  "parseSubstitution pw p inp =
     (if substitutionDepth p \<ge> MAX_SUBSTITUTION_DEPTH
      then Some (Inl (ParseSyntaxError ''Maximum command substitution depth exceeded''
                        (tok_span (currentToken p)), errorReporter p))
      else parseProgram pw (new_Parser inp (errorReporter p) (substitutionDepth p + 1)))"



subsection \<open>Command substitutions in words\<close>

text \<open>
  Modelled from the spec: the part of \<open>WordParser\<close> (\<open>parser/word.ts\<close> is not among the
  sources) that parses a command substitution. By the grammar of the spec a command
  substitution is \<open>'(' <raw text, recursively parsed as program> ')'\<close>, and by its parser
  section the recursion constructs a new parser that shares the diagnostic collector and
  has an incremented depth counter: this is \<open>Parser.parseSubstitution\<close> of parser.ts,
  which takes the inner text. The scanner emits a parenthesis outside quotes as a token
  of its own. So on an opening parenthesis the word parser reads tokens up to the closing
  parenthesis that matches it (\<open>closingParen\<close>, counting the parentheses between), takes
  the text between the two parentheses as it is written (\<open>substitutionText\<close>), has it
  parsed by \<open>parseSubstitution\<close>, and returns a word of one command-substitution part that
  holds the inner program. When the input ends before the closing parenthesis it fails
  as the error model of the spec says: it reports the diagnostic and raises the error of
  an unmatched parenthesis (\<open>UnmatchedParenError\<close> of syntax-error.ts), at the opening
  parenthesis.
\<close>

partial_function (option) closingParen ::
  "Token \<Rightarrow> Parser \<Rightarrow> nat \<Rightarrow> ((ParseError \<times> Diagnostic list) + Parser) option" where
  "closingParen opening p depth =
     (let k = tok_kind (currentToken p) in
      if k = TK_EOF
      then Some (Inl (UnmatchedParenError (tok_span opening),
                      reportError (errorReporter p) ''Unmatched parenthesis'' (tok_span opening)))
      else if k = TK_RPAREN
      then (if depth = 0 then Some (Inr p) else closingParen opening (advance p) (depth - 1))
      else if k = TK_LPAREN then closingParen opening (advance p) (depth + 1)
      else closingParen opening (advance p) depth)"

declare closingParen.simps [code]

definition substitutionText :: "Parser \<Rightarrow> Token \<Rightarrow> Token \<Rightarrow> string" where
  "substitutionText p opening closing =
     take (tokenStart closing - tokenEnd opening)
       (drop (tokenEnd opening) (src_input (source (scanner p))))"

text \<open>
  Modelled from the spec: the command substitution of \<open>WordParser\<close>, as described above.
  \<open>parseSubstitution\<close> is called on the parser as it stands at the closing parenthesis.
  The inner parser shares the reporter of the outer one: what it has reported is what
  the outer parser goes on with. The word spans from the opening to the closing
  parenthesis.
\<close>

definition parseCommandSubstitution :: "wordParser \<Rightarrow> wordParser" where
  "parseCommandSubstitution inner p =
     (let opening = currentToken p in
      case closingParen opening (advance p) 0 of
        None \<Rightarrow> None
      | Some (Inl e) \<Rightarrow> Some (Inl e)
      | Some (Inr p1) \<Rightarrow>
          (let closing = currentToken p1 in
           case parseSubstitution inner p1 (substitutionText p1 opening closing) of
             None \<Rightarrow> None
           | Some (Inl e) \<Rightarrow> Some (Inl e)
           | Some (Inr (program, pin)) \<Rightarrow>
               (let sp = \<lparr>span_start = span_start (tok_span opening),
                           span_end = span_end (tok_span closing)\<rparr> in
                Some (Inr (Some (Word sp [CommandSubPart sp program] False),
                           advance (p1\<lparr>errorReporter := errorReporter pin\<rparr>))))))"

text \<open>
  Modelled from the spec: the word parser with command substitutions (\<open>parser/word.ts\<close>
  is not among the sources). It is \<open>parseWord\<close>, which on an opening parenthesis
  parses a command substitution; what it does on any other token that is not a plain
  word stays the parameter \<open>other\<close>. The parser of the inner text has the same
  word parser. As a function the word parser is defined by recursion on the number of
  levels of substitutions it may still descend (fuel): with none left the inner word
  parser returns nothing. \<open>parseSubstitution\<close> refuses to descend below
  \<open>MAX_SUBSTITUTION_DEPTH\<close> before it calls the inner parser, so the fuel does not
  decide a parse that starts with at least that many levels.
\<close>

definition substitutionOr :: "wordParser \<Rightarrow> wordParser \<Rightarrow> wordParser" where
  "substitutionOr inner other p =
     (if tok_kind (currentToken p) = TK_LPAREN then parseCommandSubstitution inner p
      else other p)"

primrec wordParser :: "nat \<Rightarrow> wordParser \<Rightarrow> wordParser" where
  "wordParser 0 other = parseWord (substitutionOr (\<lambda>p. None) other)"
| "wordParser (Suc fuel) other = parseWord (substitutionOr (wordParser fuel other) other)"



subsection \<open>Word fragments\<close>





definition isWordKind :: "TokenKind \<Rightarrow> bool" where
  "isWordKind k = (k = TK_WORD \<or> k = TK_NAME \<or> k = TK_NUMBER)"

text \<open>What the reader has not consumed yet.\<close>

definition remaining :: "StringSourceReader \<Rightarrow> string" where
  "remaining r = drop (src_pos r) (src_input r)"


text \<open>Flags of a word that holds no glob and no expansion.\<close>

definition plainFlags :: "TokenFlagsObject \<Rightarrow> bool" where
  "plainFlags fl = (\<not> containsGlob fl \<and> \<not> containsExpansion fl)"


subsection \<open>What a token sequence covers\<close>

text \<open>
  To state that the scanner drops nothing: \<open>inBounds\<close> holds of a reader whose cursor is
  not past the end of its input. \<open>blank\<close> holds of the texts that \<open>skipWhitespace\<close>
  skips: spaces, tabs and backslash-newline pairs. \<open>tiled inp pos ts\<close> holds when the
  spans of the tokens \<open>ts\<close> lie in the input \<open>inp\<close> from the offset \<open>pos\<close> on in their
  order, with only blank text before each token, the end-of-input token spanning nothing
  and every other token at least one character.
\<close>

definition inBounds :: "StringSourceReader \<Rightarrow> bool" where
  "inBounds r = (src_pos r \<le> length (src_input r))"




subsection \<open>A parser that has read on\<close>

text \<open>
  To follow a parser through a text: \<open>readOn p p' consumed rest\<close> holds when the scanner
  of \<open>p\<close> stands before \<open>consumed @ rest\<close> and \<open>p'\<close> is a later state of the same parser
  whose scanner stands before \<open>rest\<close>, in the same input, with the same reporter and depth,
  its current token ending where its scanner stands.
\<close>

definition readOn :: "Parser \<Rightarrow> Parser \<Rightarrow> string \<Rightarrow> string \<Rightarrow> bool" where
  "readOn p p' consumed rest =
     (remaining (source (scanner p)) = consumed @ rest
      \<and> remaining (source (scanner p')) = rest
      \<and> src_input (source (scanner p')) = src_input (source (scanner p))
      \<and> src_pos (source (scanner p')) = src_pos (source (scanner p)) + length consumed
      \<and> inBounds (source (scanner p'))
      \<and> errorReporter p' = errorReporter p
      \<and> substitutionDepth p' = substitutionDepth p
      \<and> tokenEnd (currentToken p') = src_pos (source (scanner p')))"


section \<open>Properties of the intermediate representation and the handlers\<close>

text \<open>
  Claim C4. Path extraction on a glob word whose resolved list is empty yields exactly
  the singleton list of the pattern text, not the empty list; when the resolved list is
  not empty it yields exactly the resolved matches. The third conjunct says the same of
  a glob word anywhere in a word list, \<open>extractPathsFromExpandedWords\<close> being a
  \<open>flatMap\<close>.
\<close>

theorem glob_no_match_is_literal:
  "extractPathsFromExpandedWords [EW_glob p []] = [p]
   \<and> (e \<noteq> [] \<longrightarrow> extractPathsFromExpandedWords [EW_glob p e] = e)
   \<and> extractPathsFromExpandedWords (ws @ [EW_glob p e] @ vs) =
       extractPathsFromExpandedWords ws @ (if e = [] then [p] else e)
         @ extractPathsFromExpandedWords vs"
  by (simp add: extractPathsFromExpandedWords_def)

theorem glob_no_match_is_literal_witness:
  "[''a.txt''] \<noteq> [] \<and> extractPathsFromExpandedWords [EW_glob ''*.txt'' []] = [''*.txt'']
   \<and> extractPathsFromExpandedWords [EW_glob ''*.txt'' [''a.txt'']] = [''a.txt'']"
  using glob_no_match_is_literal [of "''*.txt''" "[''a.txt'']" "[]" "[]"] by simp

subsection \<open>The loops of the handlers in closed form\<close>

lemma str_ctt: "expandedWordToString (compileTimeText w) = expandedWordToString w"
  by (cases w) simp_all

lemma filter_ctt:
  "(\<And>a. Q (compileTimeText a) = Q a) \<Longrightarrow>
   filter Q (map compileTimeText as) = map compileTimeText (filter Q as)"
  by (induction as) simp_all

lemma ex_ctt:
  "(\<exists>a \<in> set (map compileTimeText as). P (expandedWordToString a)) =
   (\<exists>a \<in> set as. P (expandedWordToString a))"
  by (simp add: str_ctt)

lemma rm_loop_eq:
  "rm_loop as r ps =
     (r \<or> (\<exists>a \<in> set as. expandedWordToString a = ''-r''),
      ps @ filter (\<lambda>a. expandedWordToString a \<noteq> ''-r'' \<and> expandedWordToString a \<noteq> ''-f'' \<and> expandedWordToString a \<noteq> ''-i'') as)"
  by (induction as arbitrary: r ps) (auto simp: Let_def)

lemma cp_loop_eq:
  "cp_loop as r ps =
     (r \<or> (\<exists>a \<in> set as. expandedWordToString a = ''-r''),
      ps @ filter (\<lambda>a. expandedWordToString a \<noteq> ''-r'' \<and> expandedWordToString a \<noteq> ''-f'' \<and> expandedWordToString a \<noteq> ''-i'') as)"
  by (induction as arbitrary: r ps) (auto simp: Let_def)

lemma mv_loop_eq:
  "mv_loop as ps = ps @ filter (\<lambda>a. expandedWordToString a \<noteq> ''-f'' \<and> expandedWordToString a \<noteq> ''-i'') as"
  by (induction as arbitrary: ps) (auto simp: Let_def)

lemma mkdir_loop_eq:
  "mkdir_loop as r ps =
     (r \<or> (\<exists>a \<in> set as. expandedWordToString a = ''-p''),
      ps @ filter (\<lambda>a. expandedWordToString a \<noteq> ''-p'') as)"
  by (induction as arbitrary: r ps) (auto simp: Let_def)

lemma touch_loop_eq:
  "touch_loop as ps = ps @ filter (\<lambda>a. \<not> startsWithDash (expandedWordToString a)) as"
  by (induction as arbitrary: ps) (auto simp: Let_def)

lemma cat_loop_eq:
  "cat_loop as ps = ps @ filter (\<lambda>a. \<not> startsWithDash (expandedWordToString a)) as"
  by (induction as arbitrary: ps) (auto simp: Let_def)

lemma rm_ctt:
  "map_sum id stepCompileTimeText (compileRmV2 c) =
   compileRmV2 (argsOnly (map compileTimeText (cmd_args c)))"
proof -
  let ?P = "\<lambda>a. expandedWordToString a \<noteq> ''-r'' \<and> expandedWordToString a \<noteq> ''-f'' \<and> expandedWordToString a \<noteq> ''-i''"
  have f: "filter ?P (map compileTimeText (cmd_args c)) = map compileTimeText (filter ?P (cmd_args c))"
    by (rule filter_ctt) (simp add: str_ctt)
  show ?thesis
    using ex_ctt[of "cmd_args c" "\<lambda>s. s = ''-r''"]
    by (simp add: compileRmV2_def rm_loop_eq argsOnly_def f del: filter_map)
qed

lemma cp_ctt:
  "map_sum id stepCompileTimeText (compileCpV2 c) =
   compileCpV2 (argsOnly (map compileTimeText (cmd_args c)))"
proof -
  let ?P = "\<lambda>a. expandedWordToString a \<noteq> ''-r'' \<and> expandedWordToString a \<noteq> ''-f'' \<and> expandedWordToString a \<noteq> ''-i''"
  have f: "filter ?P (map compileTimeText (cmd_args c)) = map compileTimeText (filter ?P (cmd_args c))"
    by (rule filter_ctt) (simp add: str_ctt)
  show ?thesis
    using ex_ctt[of "cmd_args c" "\<lambda>s. s = ''-r''"]
    by (simp add: compileCpV2_def cp_loop_eq argsOnly_def f map_butlast last_map del: filter_map)
qed

lemma mv_ctt:
  "map_sum id stepCompileTimeText (compileMvV2 c) =
   compileMvV2 (argsOnly (map compileTimeText (cmd_args c)))"
proof -
  let ?P = "\<lambda>a. expandedWordToString a \<noteq> ''-f'' \<and> expandedWordToString a \<noteq> ''-i''"
  have f: "filter ?P (map compileTimeText (cmd_args c)) = map compileTimeText (filter ?P (cmd_args c))"
    by (rule filter_ctt) (simp add: str_ctt)
  show ?thesis
    by (simp add: compileMvV2_def mv_loop_eq argsOnly_def f map_butlast last_map Let_def del: filter_map)
qed

lemma mkdir_ctt:
  "map_sum id stepCompileTimeText (compileMkdirV2 c) =
   compileMkdirV2 (argsOnly (map compileTimeText (cmd_args c)))"
proof -
  let ?P = "\<lambda>a. expandedWordToString a \<noteq> ''-p''"
  have f: "filter ?P (map compileTimeText (cmd_args c)) = map compileTimeText (filter ?P (cmd_args c))"
    by (rule filter_ctt) (simp add: str_ctt)
  show ?thesis
    using ex_ctt[of "cmd_args c" "\<lambda>s. s = ''-p''"]
    by (simp add: compileMkdirV2_def mkdir_loop_eq argsOnly_def f del: filter_map)
qed

lemma touch_ctt:
  "map_sum id stepCompileTimeText (compileTouchV2 c) =
   compileTouchV2 (argsOnly (map compileTimeText (cmd_args c)))"
proof -
  let ?P = "\<lambda>a. \<not> startsWithDash (expandedWordToString a)"
  have f: "filter ?P (map compileTimeText (cmd_args c)) = map compileTimeText (filter ?P (cmd_args c))"
    by (rule filter_ctt) (simp add: str_ctt)
  show ?thesis
    by (simp add: compileTouchV2_def touch_loop_eq argsOnly_def Let_def f del: filter_map)
qed

lemma ls_ctt:
  "map_sum id stepCompileTimeText (compileLsV2 c) =
   compileLsV2 (argsOnly (map compileTimeText (cmd_args c)))"
  by (simp add: compileLsV2_def argsOnly_def literal_def)

lemma cat_ctt:
  "map_sum id stepCompileTimeText (compileCatV2 pa c) =
   compileCatV2 pa (argsOnly (map compileTimeText (cmd_args c)))"
proof -
  let ?P = "\<lambda>a. \<not> startsWithDash (expandedWordToString a)"
  have f: "filter ?P (map compileTimeText (cmd_args c)) = map compileTimeText (filter ?P (cmd_args c))"
    by (rule filter_ctt) (simp add: str_ctt)
  show ?thesis
    by (simp add: compileCatV2_def cat_loop_eq argsOnly_def Let_def str_ctt comp_def f del: filter_map split: sum.splits)
qed

text \<open>
  Claim C7. Whether a handler treats an argument as a flag or as a positional operand is
  decided from the argument's compile-time text alone: two commands whose arguments have
  the same kinds and the same value, pattern or command text, whatever their globs and
  substitutions resolved to, are classified alike by every handler (for rm, cp, mv,
  mkdir, touch, ls, and cat with any \<open>parseArgs\<close>). So a string that a glob or a
  substitution produces at execution time is never taken for a flag.
\<close>

theorem flags_decided_at_compile_time:
  assumes "sameCompileTimeText c1 c2"
  shows "agreeOnClassification (compileRmV2 c1) (compileRmV2 c2)
       \<and> agreeOnClassification (compileCpV2 c1) (compileCpV2 c2)
       \<and> agreeOnClassification (compileMvV2 c1) (compileMvV2 c2)
       \<and> agreeOnClassification (compileMkdirV2 c1) (compileMkdirV2 c2)
       \<and> agreeOnClassification (compileTouchV2 c1) (compileTouchV2 c2)
       \<and> agreeOnClassification (compileLsV2 c1) (compileLsV2 c2)
       \<and> agreeOnClassification (compileCatV2 parseArgs c1) (compileCatV2 parseArgs c2)"
  using assms
  unfolding agreeOnClassification_def sameCompileTimeText_def
    rm_ctt cp_ctt mv_ctt mkdir_ctt touch_ctt ls_ctt cat_ctt
  by simp

theorem flags_decided_at_compile_time_witness:
  "sameCompileTimeText
     \<lparr>cmd_name = EW_literal ''rm'', cmd_args = [EW_glob ''*'' [''-r''], EW_commandSub ''ls'' [''-r'']], cmd_redirections = []\<rparr>
     \<lparr>cmd_name = EW_literal ''rm'', cmd_args = [EW_glob ''*'' [], EW_commandSub ''ls'' []], cmd_redirections = []\<rparr>
   \<and> agreeOnClassification
       (compileRmV2 \<lparr>cmd_name = EW_literal ''rm'', cmd_args = [EW_glob ''*'' [''-r''], EW_commandSub ''ls'' [''-r'']], cmd_redirections = []\<rparr>)
       (compileRmV2 \<lparr>cmd_name = EW_literal ''rm'', cmd_args = [EW_glob ''*'' [], EW_commandSub ''ls'' []], cmd_redirections = []\<rparr>)
   \<and> compileRmV2 \<lparr>cmd_name = EW_literal ''rm'', cmd_args = [EW_glob ''*'' [''-r''], EW_commandSub ''ls'' [''-r'']], cmd_redirections = []\<rparr>
       = Inr (RmStepV2 [EW_glob ''*'' [''-r''], EW_commandSub ''ls'' [''-r'']] False)"
  using flags_decided_at_compile_time
    [of "\<lparr>cmd_name = EW_literal ''rm'', cmd_args = [EW_glob ''*'' [''-r''], EW_commandSub ''ls'' [''-r'']], cmd_redirections = []\<rparr>"
        "\<lparr>cmd_name = EW_literal ''rm'', cmd_args = [EW_glob ''*'' [], EW_commandSub ''ls'' []], cmd_redirections = []\<rparr>"]
  by (simp add: sameCompileTimeText_def compileRmV2_def)

text \<open>
  Claim C9. The text \<open>rm -r /tmp/a /tmp/b\<close> is lexed as the four words \<open>rm\<close>, \<open>-r\<close>,
  \<open>/tmp/a\<close> and \<open>/tmp/b\<close>, and the registry of the AST-based compiler holds the rm
  handler under the name \<open>rm\<close>. The rm handler on the command of these literal words
  returns a remove step whose recursive field is true and whose paths are \<open>/tmp/a\<close>,
  \<open>/tmp/b\<close> in that order; on \<open>rm\<close> with no path operand (no argument at all, or only
  the flags \<open>-r\<close>, \<open>-f\<close>, \<open>-i\<close>) it fails with the error "rm requires at least one
  path", and with a path operand it returns a step.
\<close>

theorem compileRmV2_spec:
  "compileRmV2 \<lparr>cmd_name = literal ''rm'',
                cmd_args = [literal ''-r'', literal ''/tmp/a'', literal ''/tmp/b''],
                cmd_redirections = []\<rparr>
     = Inr (RmStepV2 [literal ''/tmp/a'', literal ''/tmp/b''] True)
   \<and> extractPathsFromExpandedWords [literal ''/tmp/a'', literal ''/tmp/b''] = [''/tmp/a'', ''/tmp/b'']
   \<and> compileRmV2 \<lparr>cmd_name = literal ''rm'', cmd_args = [], cmd_redirections = []\<rparr>
     = Inl (Error ''rm requires at least one path'')
   \<and> ((\<forall>a \<in> set (cmd_args cmd). expandedWordToString a \<in> {''-r'', ''-f'', ''-i''})
        \<longrightarrow> compileRmV2 cmd = Inl (Error ''rm requires at least one path''))
   \<and> ((\<exists>a \<in> set (cmd_args cmd). expandedWordToString a \<notin> {''-r'', ''-f'', ''-i''})
        \<longrightarrow> (\<exists>paths r. compileRmV2 cmd = Inr (RmStepV2 paths r)))
   \<and> map_option (map (\<lambda>t. (tok_kind t, tok_spelling t, tok_flags t)) \<circ> fst)
       (tokenize (new_Scanner ''rm -r /tmp/a /tmp/b''))
     = Some [(TK_NAME, ''rm'', createEmptyFlags), (TK_WORD, ''-r'', createEmptyFlags),
             (TK_WORD, ''/tmp/a'', createEmptyFlags), (TK_WORD, ''/tmp/b'', createEmptyFlags),
             (TK_EOF, [], createEmptyFlags)]
   \<and> CommandHandlerV2_get ''rm'' = Inr H_compileRmV2"
proof -
  have t: "map_option (map (\<lambda>t. (tok_kind t, tok_spelling t, tok_flags t)) \<circ> fst)
       (tokenize (new_Scanner ''rm -r /tmp/a /tmp/b''))
     = Some [(TK_NAME, ''rm'', createEmptyFlags), (TK_WORD, ''-r'', createEmptyFlags),
             (TK_WORD, ''/tmp/a'', createEmptyFlags), (TK_WORD, ''/tmp/b'', createEmptyFlags),
             (TK_EOF, [], createEmptyFlags)]"
    by code_simp
  have r: "CommandHandlerV2_get ''rm'' = Inr H_compileRmV2"
    by (simp add: CommandHandlerV2_get_def handlersV2_def)
  have a: "(\<forall>a \<in> set (cmd_args cmd). expandedWordToString a \<in> {''-r'', ''-f'', ''-i''})
        \<longrightarrow> compileRmV2 cmd = Inl (Error ''rm requires at least one path'')"
    by (auto simp add: compileRmV2_def rm_loop_eq filter_empty_conv)
  have b: "(\<exists>a \<in> set (cmd_args cmd). expandedWordToString a \<notin> {''-r'', ''-f'', ''-i''})
        \<longrightarrow> (\<exists>paths r. compileRmV2 cmd = Inr (RmStepV2 paths r))"
    by (auto simp add: compileRmV2_def rm_loop_eq filter_empty_conv)
  have c: "compileRmV2 \<lparr>cmd_name = literal ''rm'',
                cmd_args = [literal ''-r'', literal ''/tmp/a'', literal ''/tmp/b''],
                cmd_redirections = []\<rparr>
     = Inr (RmStepV2 [literal ''/tmp/a'', literal ''/tmp/b''] True)"
    by (simp add: compileRmV2_def literal_def)
  have d: "extractPathsFromExpandedWords [literal ''/tmp/a'', literal ''/tmp/b''] = [''/tmp/a'', ''/tmp/b'']"
    by (simp add: extractPathsFromExpandedWords_def literal_def)
  have e: "compileRmV2 \<lparr>cmd_name = literal ''rm'', cmd_args = [], cmd_redirections = []\<rparr>
     = Inl (Error ''rm requires at least one path'')"
    by (simp add: compileRmV2_def)
  from a b c d e t r show ?thesis by (intro conjI)
qed

theorem compileRmV2_spec_witness:
  "expandedWordToString (literal ''-f'') \<in> {''-r'', ''-f'', ''-i''}
   \<and> expandedWordToString (literal ''-r'') \<in> {''-r'', ''-f'', ''-i''}
   \<and> compileRmV2 \<lparr>cmd_name = literal ''rm'', cmd_args = [literal ''-f'', literal ''-r''], cmd_redirections = []\<rparr>
       = Inl (Error ''rm requires at least one path'')"
  using compileRmV2_spec
    [of "\<lparr>cmd_name = literal ''rm'', cmd_args = [literal ''-f'', literal ''-r''], cmd_redirections = []\<rparr>"]
  by (simp add: literal_def)

text \<open>
  Claim C3, as stated, fails: the registry of the AST-based compiler has no handler for
  \<open>pwd\<close>, and the registry of the string-based compiler has none for \<open>mv\<close>, \<open>touch\<close>,
  \<open>head\<close> and \<open>mkdir\<close>; looking these up raises the unknown-command error.
\<close>

theorem registry_v2_counterexample:
  "CommandHandlerV2_get ''pwd'' = Inl (Error ''Unknown command: pwd'')
   \<and> CommandHandler_get ''mv'' = Inl (Error ''Unknown command: mv'')
   \<and> CommandHandler_get ''touch'' = Inl (Error ''Unknown command: touch'')
   \<and> CommandHandler_get ''head'' = Inl (Error ''Unknown command: head'')
   \<and> CommandHandler_get ''mkdir'' = Inl (Error ''Unknown command: mkdir'')"
  by (simp add: CommandHandlerV2_get_def handlersV2_def CommandHandler_get_def handlers_def objectPrototypeKeys_def)

text \<open>
  Claim C3, amended. The registry of the AST-based compiler holds a handler for each of
  the nine names ls, cat, cp, mv, rm, touch, head, tail and mkdir; a handler for pwd is
  held by the registry of the string-based compiler only, beside those for ls, cat, cp,
  rm and tail.
\<close>

theorem registry_contents:
  "CommandHandlerV2_get ''ls'' = Inr H_compileLsV2
   \<and> CommandHandlerV2_get ''cat'' = Inr H_compileCatV2
   \<and> CommandHandlerV2_get ''cp'' = Inr H_compileCpV2
   \<and> CommandHandlerV2_get ''mv'' = Inr H_compileMvV2
   \<and> CommandHandlerV2_get ''rm'' = Inr H_compileRmV2
   \<and> CommandHandlerV2_get ''touch'' = Inr H_compileTouchV2
   \<and> CommandHandlerV2_get ''head'' = Inr H_compileHeadV2
   \<and> CommandHandlerV2_get ''tail'' = Inr H_compileTailV2
   \<and> CommandHandlerV2_get ''mkdir'' = Inr H_compileMkdirV2
   \<and> CommandHandler_get ''pwd'' = Inr H_compilePwd
   \<and> CommandHandler_get ''ls'' = Inr H_compileLs
   \<and> CommandHandler_get ''cat'' = Inr H_compileCat
   \<and> CommandHandler_get ''cp'' = Inr H_compileCp
   \<and> CommandHandler_get ''rm'' = Inr H_compileRm
   \<and> CommandHandler_get ''tail'' = Inr H_compileTail"
  by (simp add: CommandHandlerV2_get_def handlersV2_def CommandHandler_get_def handlers_def)

section \<open>Properties of tail and touch\<close>

lemma tail_loop_buf:
  "int (length buf) \<le> max n 0 \<Longrightarrow>
   fst (tail_loop n buf peak input) = drop (length (buf @ input) - nat n) (buf @ input)"
proof (induction input arbitrary: buf peak)
  case Nil
  then show ?case by simp
next
  case (Cons x input)
  show ?case
  proof (cases "int (length (buf @ [x])) > n")
    case True
    have len: "int (length (tl (buf @ [x]))) \<le> max n 0" using Cons.prems by simp
    have "tl (buf @ [x]) @ input = tl (buf @ x # input)" by (cases buf) simp_all
    moreover have "length (buf @ x # input) - nat n > 0" using True by simp
    ultimately have "drop (length (tl (buf @ [x]) @ input) - nat n) (tl (buf @ [x]) @ input)
        = drop (length (buf @ x # input) - nat n) (buf @ x # input)"
      by (cases "buf @ x # input") (simp_all add: drop_Cons')
    with True Cons.IH[OF len] show ?thesis by (simp add: Let_def)
  next
    case False
    then have len: "int (length (buf @ [x])) \<le> max n 0" by simp
    from False Cons.IH[OF len] show ?thesis by (simp add: Let_def)
  qed
qed

lemma tail_loop_peak:
  "int (length buf) \<le> max n 0 \<Longrightarrow> int peak \<le> max n 0 + 1 \<Longrightarrow>
   int (snd (tail_loop n buf peak input)) \<le> max n 0 + 1"
proof (induction input arbitrary: buf peak)
  case Nil
  then show ?case by simp
next
  case (Cons x input)
  show ?case
  proof (cases "int (length (buf @ [x])) > n")
    case True
    have len: "int (length (tl (buf @ [x]))) \<le> max n 0" using Cons.prems by simp
    have pk: "int (max peak (length (buf @ [x]))) \<le> max n 0 + 1" using Cons.prems by simp
    from True Cons.IH[OF len pk] show ?thesis by (simp add: Let_def)
  next
    case False
    then have len: "int (length (buf @ [x])) \<le> max n 0" by simp
    have pk: "int (max peak (length (buf @ [x]))) \<le> max n 0 + 1" using Cons.prems by simp
    from False Cons.IH[OF len pk] show ?thesis by (simp add: Let_def)
  qed
qed

text \<open>
  Claim C2, as stated, fails for a negative count: \<open>tail(-1)\<close> holds one record right
  after the push, which is more than \<open>N + 1 = 0\<close>.
\<close>

theorem tail_negative_counterexample:
  "\<not> int (tail_peak (- 1) [\<lparr>line_text = ''line 1'', line_file = None, line_lineNum = None\<rparr>]) \<le> (- 1) + 1"
  by (simp add: tail_peak_def)

text \<open>
  Claim C2, amended. For every integer \<open>N\<close> and every finite input of \<open>K\<close> records,
  \<open>tail(N)\<close> yields exactly the last \<open>min(max(N,0), K)\<close> records of the input in their
  original order, yields nothing for \<open>N \<le> 0\<close>, and its buffer never holds more than
  \<open>max(N,0) + 1\<close> records.
\<close>

theorem tail_last_n:
  "tail n input = drop (length input - nat n) input
   \<and> int (length (tail n input)) = min (max n 0) (int (length input))
   \<and> (n \<le> 0 \<longrightarrow> tail n input = [])
   \<and> int (tail_peak n input) \<le> max n 0 + 1"
proof -
  have a: "tail n input = drop (length input - nat n) input"
    using tail_loop_buf[of "[]" n 0 input] by (simp add: tail_def)
  have b: "int (tail_peak n input) \<le> max n 0 + 1"
    using tail_loop_peak[of "[]" n 0 input] by (simp add: tail_peak_def)
  show ?thesis using a b by auto
qed

theorem tail_last_n_witness:
  "(0::int) \<le> 0 \<and> tail 0 [1::nat, 2, 3] = [] \<and> tail 2 [1::nat, 2, 3, 4, 5] = [4, 5]"
  using tail_last_n [of 0 "[1::nat, 2, 3]"] tail_last_n [of 2 "[1::nat, 2, 3, 4, 5]"] by simp


lemma touch_files:
  "fs_files (touch fs files) p =
     (if p \<in> set files \<and> fs_files fs p = None then Some [] else fs_files fs p)"
  by (induction files arbitrary: fs) (auto simp: fs_exists_def fs_writeFile_def)

lemma touch_writes:
  "\<exists>ws. fs_writes (touch fs files) = fs_writes fs @ ws
     \<and> (\<forall>(q, c) \<in> set ws. q \<in> set files \<and> fs_files fs q = None \<and> c = [])"
proof (induction files arbitrary: fs)
  case Nil
  then show ?case by simp
next
  case (Cons f files)
  show ?case
  proof (cases "fs_exists fs f")
    case True
    with Cons.IH[of fs] show ?thesis by auto
  next
    case False
    from Cons.IH[of "fs_writeFile fs f []"] obtain ws where
      ws: "fs_writes (touch (fs_writeFile fs f []) files) = fs_writes (fs_writeFile fs f []) @ ws"
        "\<forall>(q, c) \<in> set ws. q \<in> set files \<and> fs_files (fs_writeFile fs f []) q = None \<and> c = []"
      by blast
    have "fs_writes (touch fs (f # files)) = fs_writes fs @ ((f, []) # ws)"
      using False ws(1) by (simp add: fs_writeFile_def)
    moreover have "\<forall>(q, c) \<in> set ((f, []) # ws). q \<in> set (f # files) \<and> fs_files fs q = None \<and> c = []"
      using False ws(2) by (auto simp: fs_exists_def fs_writeFile_def split: if_splits)
    ultimately show ?thesis by blast
  qed
qed

text \<open>
  Claim C10. Running touch over a list of paths leaves every path that exists unchanged
  and writes nothing to it; a listed path that does not exist is created with empty
  content; a path that is not listed is unchanged; and the writes the filesystem had
  received before are still there, in order.
\<close>

theorem touch_frame:
  "(fs_exists fs p \<longrightarrow>
      fs_files (touch fs files) p = fs_files fs p
      \<and> p \<notin> fst ` set (drop (length (fs_writes fs)) (fs_writes (touch fs files))))
   \<and> (p \<in> set files \<and> \<not> fs_exists fs p \<longrightarrow> fs_files (touch fs files) p = Some [])
   \<and> (p \<notin> set files \<longrightarrow> fs_files (touch fs files) p = fs_files fs p)
   \<and> take (length (fs_writes fs)) (fs_writes (touch fs files)) = fs_writes fs"
proof -
  obtain ws where ws: "fs_writes (touch fs files) = fs_writes fs @ ws"
     "\<forall>(q, c) \<in> set ws. q \<in> set files \<and> fs_files fs q = None \<and> c = []"
    using touch_writes by blast
  have "fs_exists fs p \<longrightarrow> p \<notin> fst ` set ws"
    using ws(2) by (auto simp: fs_exists_def)
  then show ?thesis using ws(1) by (auto simp: touch_files fs_exists_def)
qed

theorem touch_frame_witness:
  "fs_exists \<lparr>fs_files = [''/a'' \<mapsto> [1, 2]], fs_writes = []\<rparr> ''/a''
   \<and> fs_files (touch \<lparr>fs_files = [''/a'' \<mapsto> [1, 2]], fs_writes = []\<rparr> [''/a'', ''/b'']) ''/a'' = Some [1, 2]
   \<and> ''/b'' \<in> set [''/a'', ''/b''] \<and> \<not> fs_exists \<lparr>fs_files = [''/a'' \<mapsto> [1, 2]], fs_writes = []\<rparr> ''/b''
   \<and> fs_files (touch \<lparr>fs_files = [''/a'' \<mapsto> [1, 2]], fs_writes = []\<rparr> [''/a'', ''/b'']) ''/b'' = Some []
   \<and> ''/c'' \<notin> set [''/a'', ''/b'']
   \<and> fs_files (touch \<lparr>fs_files = [''/a'' \<mapsto> [1, 2]], fs_writes = []\<rparr> [''/a'', ''/b'']) ''/c'' = None"
  using touch_frame [of "\<lparr>fs_files = [''/a'' \<mapsto> [1, 2]], fs_writes = []\<rparr>" "''/a''" "[''/a'', ''/b'']"]
    touch_frame [of "\<lparr>fs_files = [''/a'' \<mapsto> [1, 2]], fs_writes = []\<rparr>" "''/b''" "[''/a'', ''/b'']"]
    touch_frame [of "\<lparr>fs_files = [''/a'' \<mapsto> [1, 2]], fs_writes = []\<rparr>" "''/c''" "[''/a'', ''/b'']"]
  by (simp add: fs_exists_def)

section \<open>Properties of the lexer\<close>

subsection \<open>The reader's input never changes, and the cursor only moves forward\<close>

lemma src_advance_input [simp]: "src_input (snd (src_advance r)) = src_input r"
  by (simp add: src_advance_def Let_def)

lemma src_eof_left: "src_eof r = (src_left r = 0)"
  by (auto simp: src_eof_def src_left_def)

lemma skipWhitespace_input: "src_input (skipWhitespace r) = src_input r"
  by (induction r rule: skipWhitespace.induct) (subst skipWhitespace.simps, auto simp: Let_def)

lemma skipWhitespace_left: "src_left (skipWhitespace r) \<le> src_left r"
  by (induction r rule: skipWhitespace.induct)
     (subst skipWhitespace.simps,
      auto simp: Let_def intro: src_left_advance_trans
        src_left_advance_trans [OF src_left_advance_trans])

lemma skipWhitespace_stops:
  "src_eof (skipWhitespace r) \<or> (src_peek (skipWhitespace r) 0 \<noteq> SPACE \<and> src_peek (skipWhitespace r) 0 \<noteq> TAB)"
  by (induction r rule: skipWhitespace.induct) (subst (1 2 3) skipWhitespace.simps, auto simp: Let_def)

lemma readComment_loop_input: "src_input (snd (readComment_loop r s)) = src_input r"
  by (induction r s rule: readComment_loop.induct) (subst readComment_loop.simps, auto)

lemma readComment_loop_left: "src_left (snd (readComment_loop r s)) \<le> src_left r"
  by (induction r s rule: readComment_loop.induct)
     (subst readComment_loop.simps, auto intro: src_left_advance_trans)

lemma fastPath_loop_input: "src_input (snd (fastPath_loop r s)) = src_input r"
  by (induction r s rule: fastPath_loop.induct) (subst fastPath_loop.simps, auto simp: Let_def)

lemma src_advance_mark [simp]: "src_markState (snd (src_advance r)) = src_markState r"
  by (simp add: src_advance_def Let_def)

lemma fastPath_loop_mark: "src_markState (snd (fastPath_loop r s)) = src_markState r"
  by (induction r s rule: fastPath_loop.induct) (subst fastPath_loop.simps, auto simp: Let_def)

lemma fastPath_loop_length:
  "src_left (snd (fastPath_loop r s)) + length (fst (fastPath_loop r s)) = src_left r + length s"
proof (induction r s rule: fastPath_loop.induct)
  case (1 r spelling)
  show ?case
  proof (cases "\<not> src_eof r \<and> \<not> isSpecialChar (src_peek r 0)")
    case True
    have "src_left (snd (src_advance r)) + 1 = src_left r"
      using True by (auto simp: src_left_def src_advance_def src_eof_def Let_def)
    with "1.IH"[OF _ refl] True show ?thesis
      by (subst (1 2) fastPath_loop.simps) (simp add: Let_def)
  next
    case False
    then show ?thesis by (subst (1 2) fastPath_loop.simps) (auto simp: Let_def)
  qed
qed

lemma skipQuoted_loop_input: "src_input (snd (skipQuoted_loop r q s)) = src_input r"
  by (induction r q s rule: skipQuoted_loop.induct)
     (subst skipQuoted_loop.simps, auto simp: Let_def)

lemma skipQuotedContent_input: "src_input (snd (skipQuotedContent r q)) = src_input r"
  by (simp add: skipQuotedContent_def case_prod_beta skipQuoted_loop_input)

lemma commandSub_loop_input: "src_input (snd (commandSub_loop r d s)) = src_input r"
  by (induction r d s rule: commandSub_loop.induct)
     (subst commandSub_loop.simps, auto simp: Let_def skipQuotedContent_input)

lemma charClass_loop_input: "src_input (snd (charClass_loop r s)) = src_input r"
  by (induction r s rule: charClass_loop.induct) (subst charClass_loop.simps, auto)

lemma processChar_input: "src_input (source (snd (processChar sc c))) = src_input (source sc)"
  by (simp add: processChar_def handleSingleQuote_def handleDoubleQuote_def handleGlobChar_def
        handleEscape_def readCommandSubstitution_def readCharacterClass_def Let_def
        case_prod_beta commandSub_loop_input charClass_loop_input)

lemma readComplexWord_loop_input:
  "src_input (source (snd (snd (readComplexWord_loop sc s fl)))) = src_input (source sc)"
  by (induction sc s fl rule: readComplexWord_loop.induct)
     (subst readComplexWord_loop.simps, auto simp: Let_def processChar_input)

lemma readComplexWord_loop_left:
  "src_left (source (snd (snd (readComplexWord_loop sc s fl)))) \<le> src_left (source sc)"
proof (induction sc s fl rule: readComplexWord_loop.induct)
  case (1 sc spelling fl)
  let ?c = "src_peek (source sc) 0"
  let ?p = "processChar sc ?c"
  show ?case
  proof (cases "\<not> src_eof (source sc) \<and> \<not> (\<not> ctx_inQuotes (stateCtx sc) \<and> isWordBoundary ?c)")
    case False
    then show ?thesis by (subst readComplexWord_loop.simps) (auto simp: Let_def)
  next
    case True
    then have ne: "\<not> src_eof (source sc)"
      and nb: "\<not> (\<not> ctx_inQuotes (stateCtx sc) \<and> isWordBoundary ?c)" by simp_all
    have p: "src_left (source (snd ?p)) \<le> src_left (source sc)"
      using processChar_left[OF ne, of ?c] by simp
    show ?thesis
    proof (cases "cpr_done (fst ?p)")
      case True
      with ne nb p show ?thesis by (subst readComplexWord_loop.simps) (auto simp: Let_def)
    next
      case False
      have "src_left (source (snd (snd (readComplexWord_loop (snd ?p)
               (spelling @ cpr_chars (fst ?p)) (mergeFlags fl (cpr_flags (fst ?p)))))))
            \<le> src_left (source sc)"
        by (rule le_trans [OF "1.IH"[OF ne refl nb refl refl refl refl False] p])
      with ne nb False show ?thesis by (subst readComplexWord_loop.simps) (auto simp: Let_def)
    qed
  qed
qed

subsection \<open>Every token but the end-of-input token consumes input\<close>

lemma readComment_loop_strict:
  "\<not> src_eof r \<Longrightarrow> src_peek r 0 \<noteq> LF \<Longrightarrow> src_left (snd (readComment_loop r s)) < src_left r"
proof -
  assume ne: "\<not> src_eof r" and nl: "src_peek r 0 \<noteq> LF"
  have "src_left (snd (readComment_loop (snd (src_advance r)) (s @ [fst (src_advance r)])))
          \<le> src_left (snd (src_advance r))"
    by (rule readComment_loop_left)
  also have "\<dots> < src_left r" using ne by simp
  finally show ?thesis using ne nl by (subst readComment_loop.simps) simp
qed

lemma classifyWord_kind: "tok_kind (classifyWord sc s start fl) \<noteq> TK_EOF"
  by (simp add: classifyWord_def makeToken_def)

lemma src_mark_simps [simp]:
  "src_input (src_mark r) = src_input r"
  "src_left (src_mark r) = src_left r"
  "src_markState (src_mark r) = Some (src_pos r, src_line r, src_column r)"
  by (simp_all add: src_mark_def src_left_def)

text \<open>A fast path that fails puts the reader back where it was, with the mark cleared.\<close>

lemma src_advance_more [simp]:
  "StringSourceReader.more (snd (src_advance r)) = StringSourceReader.more r"
  by (simp add: src_advance_def Let_def)

lemma fastPath_loop_more:
  "StringSourceReader.more (snd (fastPath_loop r s)) = StringSourceReader.more r"
  by (induction r s rule: fastPath_loop.induct) (subst fastPath_loop.simps, auto simp: Let_def)

lemma fastPath_reset:
  "src_reset (snd (fastPath_loop (src_mark r) s)) = r\<lparr>src_markState := None\<rparr>"
proof -
  let ?r' = "snd (fastPath_loop (src_mark r) s)"
  have m: "src_markState ?r' = Some (src_pos r, src_line r, src_column r)"
    by (simp add: fastPath_loop_mark)
  have i: "src_input ?r' = src_input r" by (simp add: fastPath_loop_input)
  have e: "StringSourceReader.more ?r' = StringSourceReader.more r"
    by (simp add: fastPath_loop_more src_mark_def)
  show ?thesis
    by (rule StringSourceReader.equality) (simp_all add: src_reset_def m i e)
qed

lemma tryFastPath_None:
  "fst (tryFastPath sc start) = None \<Longrightarrow>
   snd (tryFastPath sc start) = sc\<lparr>source := (source sc)\<lparr>src_markState := None\<rparr>\<rparr>"
  by (auto simp: tryFastPath_def case_prod_beta Let_def fastPath_reset split: if_splits)

lemma tryFastPath_Some:
  "fst (tryFastPath sc start) = Some t \<Longrightarrow>
   tok_kind t \<noteq> TK_EOF
   \<and> src_left (source (snd (tryFastPath sc start))) < src_left (source sc)
   \<and> src_input (source (snd (tryFastPath sc start))) = src_input (source sc)"
proof -
  assume a: "fst (tryFastPath sc start) = Some t"
  let ?l = "fastPath_loop (src_mark (source sc)) []"
  from a have ne: "fst ?l \<noteq> []" and b: "isWordBoundary (src_peek (snd ?l) 0)"
    by (auto simp: tryFastPath_def case_prod_beta Let_def split: if_splits)
  have s: "snd (tryFastPath sc start) = sc\<lparr>source := snd ?l\<rparr>"
    using ne b by (simp add: tryFastPath_def case_prod_beta Let_def)
  have t: "t = classifyWord (sc\<lparr>source := snd ?l\<rparr>) (fst ?l) start createEmptyFlags"
    using a ne b by (simp add: tryFastPath_def case_prod_beta Let_def)
  have "src_left (snd ?l) + length (fst ?l) = src_left (source sc)"
    using fastPath_loop_length[of "src_mark (source sc)" "[]"] by simp
  with ne have "src_left (snd ?l) < src_left (source sc)" by (cases "fst ?l") auto
  then show ?thesis by (simp add: s t classifyWord_kind fastPath_loop_input)
qed

lemma readComplexWord_loop_strict:
  assumes "\<not> src_eof (source sc)" and "\<not> ctx_inQuotes (stateCtx sc)"
    and "\<not> isWordBoundary (src_peek (source sc) 0)"
  shows "src_left (source (snd (snd (readComplexWord_loop sc s fl)))) < src_left (source sc)"
proof -
  let ?p = "processChar sc (src_peek (source sc) 0)"
  have p: "src_left (source (snd ?p)) < src_left (source sc)"
    using assms(1) by (rule processChar_left)
  have "src_left (source (snd (snd (readComplexWord_loop (snd ?p)
               (s @ cpr_chars (fst ?p)) (mergeFlags fl (cpr_flags (fst ?p)))))))
        < src_left (source sc)"
    by (rule le_less_trans [OF readComplexWord_loop_left p])
  with assms p show ?thesis by (subst readComplexWord_loop.simps) (auto simp: Let_def)
qed

lemma ctx_reset_not_inQuotes [simp]: "\<not> ctx_inQuotes ctx_reset"
  by (simp add: ctx_inQuotes_def ctx_reset_def ctx_current_def)

lemma with_mark_simps [simp]:
  "src_eof (r\<lparr>src_markState := m\<rparr>) = src_eof r"
  "src_peek (r\<lparr>src_markState := m\<rparr>) k = src_peek r k"
  "src_left (r\<lparr>src_markState := m\<rparr>) = src_left r"
  "src_position (r\<lparr>src_markState := m\<rparr>) = src_position r"
  by (simp_all add: src_eof_def src_peek_def src_left_def src_position_def Let_def)

lemma readWord_progress:
  assumes ne: "\<not> src_eof (source sc)" and nb: "\<not> isWordBoundary (src_peek (source sc) 0)"
  shows "tok_kind (fst (readWord sc start)) \<noteq> TK_EOF
   \<and> src_left (source (snd (readWord sc start))) < src_left (source sc)
   \<and> src_input (source (snd (readWord sc start))) = src_input (source sc)"
proof (cases "fst (tryFastPath sc start)")
  case (Some t)
  then have "readWord sc start = (t, snd (tryFastPath sc start))"
    by (simp add: readWord_def case_prod_beta)
  with tryFastPath_Some[OF Some] show ?thesis by simp
next
  case None
  let ?sc1 = "sc\<lparr>source := (source sc)\<lparr>src_markState := None\<rparr>\<rparr>"
  let ?l = "readComplexWord_loop (?sc1\<lparr>stateCtx := ctx_reset\<rparr>) [] createEmptyFlags"
  have rw: "readWord sc start = (classifyWord (snd (snd ?l)) (fst ?l) start (fst (snd ?l)), snd (snd ?l))"
    using None tryFastPath_None[OF None]
    by (simp add: readWord_def readComplexWord_def case_prod_beta)
  have "src_left (source (snd (snd ?l))) < src_left (source (?sc1\<lparr>stateCtx := ctx_reset\<rparr>))"
    by (rule readComplexWord_loop_strict) (use ne nb in simp_all)
  moreover have "src_input (source (snd (snd ?l))) = src_input (source (?sc1\<lparr>stateCtx := ctx_reset\<rparr>))"
    by (rule readComplexWord_loop_input)
  ultimately show ?thesis by (simp add: rw classifyWord_kind)
qed

lemma tryMatchOperator_None [simp]: "tryMatchOperator sc start = None"
  by (simp add: tryMatchOperator_def OPERATORS_def)

lemma single_char_op_kind: "map_of SINGLE_CHAR_OPS c = Some k \<Longrightarrow> k \<noteq> TK_EOF"
  by (auto simp: SINGLE_CHAR_OPS_def split: if_splits)

lemma single_char_op_boundary: "map_of SINGLE_CHAR_OPS c = None \<Longrightarrow>
   c \<noteq> NUL \<Longrightarrow> c \<noteq> LF \<Longrightarrow> c \<noteq> CHR ''('' \<Longrightarrow> c \<noteq> CHR '')'' \<Longrightarrow> c \<noteq> SPACE \<Longrightarrow> c \<noteq> TAB \<Longrightarrow>
   \<not> isWordBoundary c"
  by (auto simp: SINGLE_CHAR_OPS_def isWordBoundary_def WORD_BOUNDARY_CHARS_def split: if_splits)

text \<open>
  \<open>nextToken\<close> where \<open>getToken\<close> calls it, right after the whitespace was skipped: it
  returns the end-of-input token exactly when the reader is at the end of the input or at
  a \<open>NUL\<close> character, and then leaves the scanner as it is; every other token consumes at
  least one character.
\<close>

lemma nextToken_cases:
  assumes ws: "src_eof (source sc) \<or> (src_peek (source sc) 0 \<noteq> SPACE \<and> src_peek (source sc) 0 \<noteq> TAB)"
  shows "src_input (source (snd (nextToken sc start))) = src_input (source sc)
   \<and> (if src_eof (source sc) \<or> src_peek (source sc) 0 = NUL
       then tok_kind (fst (nextToken sc start)) = TK_EOF \<and> snd (nextToken sc start) = sc
       else tok_kind (fst (nextToken sc start)) \<noteq> TK_EOF
            \<and> src_left (source (snd (nextToken sc start))) < src_left (source sc))"
proof (cases "src_eof (source sc) \<or> src_peek (source sc) 0 = NUL")
  case True
  then show ?thesis by (auto simp: nextToken_def makeToken_def)
next
  case False
  then have ne: "\<not> src_eof (source sc)" and nn: "src_peek (source sc) 0 \<noteq> NUL" by simp_all
  let ?c = "src_peek (source sc) 0"
  have adv: "\<And>k s. tok_kind (fst (advanceToken sc k s start)) = k
      \<and> src_left (source (snd (advanceToken sc k s start))) < src_left (source sc)
      \<and> src_input (source (snd (advanceToken sc k s start))) = src_input (source sc)"
    using ne by (simp add: advanceToken_def Let_def makeToken_def)
  consider (comment) "?c = CHR ''#''" | (newline) "?c \<noteq> CHR ''#''" "?c = LF"
    | (op) k where "?c \<noteq> CHR ''#''" "?c \<noteq> LF" "map_of SINGLE_CHAR_OPS ?c = Some k"
    | (lparen) "?c \<noteq> CHR ''#''" "?c \<noteq> LF" "map_of SINGLE_CHAR_OPS ?c = None" "?c = CHR ''(''"
    | (rparen) "?c \<noteq> CHR ''#''" "?c \<noteq> LF" "map_of SINGLE_CHAR_OPS ?c = None" "?c \<noteq> CHR ''(''" "?c = CHR '')''"
    | (word) "?c \<noteq> CHR ''#''" "?c \<noteq> LF" "map_of SINGLE_CHAR_OPS ?c = None" "?c \<noteq> CHR ''(''" "?c \<noteq> CHR '')''"
    by (cases "map_of SINGLE_CHAR_OPS ?c") blast+
  then show ?thesis
  proof cases
    case comment
    have "src_left (snd (readComment_loop (source sc) [])) < src_left (source sc)"
      by (rule readComment_loop_strict) (use ne comment in simp_all)
    then show ?thesis using False comment
      by (simp add: nextToken_def readComment_def case_prod_beta Let_def makeToken_def
            readComment_loop_input)
  next
    case newline
    then show ?thesis using False adv[of TK_NEWLINE "[LF]"] by (simp add: nextToken_def)
  next
    case op
    then show ?thesis using False adv[of k "[?c]"] single_char_op_kind[OF op(3)]
      by (simp add: nextToken_def)
  next
    case lparen
    then show ?thesis using False adv[of TK_LPAREN "''(''"] by (simp add: nextToken_def)
  next
    case rparen
    then show ?thesis using False adv[of TK_RPAREN "'')''"] by (simp add: nextToken_def)
  next
    case word
    have "\<not> isWordBoundary ?c"
      by (rule single_char_op_boundary) (use word nn ne ws in auto)
    from readWord_progress[OF ne this, of start] show ?thesis
      using False word by (simp add: nextToken_def)
  qed
qed

lemma getToken_cases:
  "src_input (source (snd (getToken sc))) = src_input (source sc)
   \<and> (if tok_kind (fst (getToken sc)) = TK_EOF
       then src_eof (source (snd (getToken sc))) \<or> src_peek (source (snd (getToken sc))) 0 = NUL
       else src_left (source (snd (getToken sc))) < src_left (source sc))"
proof -
  let ?sc1 = "sc\<lparr>source := skipWhitespace (source sc)\<rparr>"
  let ?start = "src_position (source ?sc1)"
  have g: "getToken sc = nextToken ?sc1 ?start" by (simp add: getToken_def Let_def)
  have ws: "src_eof (source ?sc1) \<or> (src_peek (source ?sc1) 0 \<noteq> SPACE \<and> src_peek (source ?sc1) 0 \<noteq> TAB)"
    using skipWhitespace_stops[of "source sc"] by simp
  have l: "src_left (source ?sc1) \<le> src_left (source sc)" by (simp add: skipWhitespace_left)
  have i: "src_input (source ?sc1) = src_input (source sc)" by (simp add: skipWhitespace_input)
  from nextToken_cases[OF ws, of ?start] l i show ?thesis
    unfolding g by (auto split: if_splits)
qed

subsection \<open>Tokenization returns\<close>

lemma tokenize_loop_total:
  "\<exists>ts sc'. tokenize_loop sc tokens = Some (tokens @ ts, sc')
     \<and> ts \<noteq> [] \<and> tok_kind (last ts) = TK_EOF
     \<and> list_all (\<lambda>t. tok_kind t \<noteq> TK_EOF) (butlast ts)
     \<and> src_input (source sc') = src_input (source sc)
     \<and> (src_eof (source sc') \<or> src_peek (source sc') 0 = NUL)"
proof (induction "src_left (source sc)" arbitrary: sc tokens rule: less_induct)
  case less
  let ?t = "fst (getToken sc)" and ?sc1 = "snd (getToken sc)"
  note g = getToken_cases[of sc]
  show ?case
  proof (cases "tok_kind ?t = TK_EOF")
    case True
    then have "tokenize_loop sc tokens = Some (tokens @ [?t], ?sc1)"
      by (subst tokenize_loop.simps) (simp add: Let_def)
    with True g show ?thesis by simp
  next
    case False
    with g have lt: "src_left (source ?sc1) < src_left (source sc)" by simp
    from less[OF lt, of "tokens @ [?t]"] obtain ts sc' where
      r: "tokenize_loop ?sc1 (tokens @ [?t]) = Some ((tokens @ [?t]) @ ts, sc')"
        "ts \<noteq> []" "tok_kind (last ts) = TK_EOF"
        "list_all (\<lambda>t. tok_kind t \<noteq> TK_EOF) (butlast ts)"
        "src_input (source sc') = src_input (source ?sc1)"
        "src_eof (source sc') \<or> src_peek (source sc') 0 = NUL"
      by blast
    have "tokenize_loop sc tokens = Some (tokens @ (?t # ts), sc')"
      using False r(1) by (subst tokenize_loop.simps) (simp add: Let_def)
    with r False g show ?thesis by simp
  qed
qed




subsection \<open>Tokens do not depend on the mark or on the state stack left behind\<close>

lemma src_advance_wm:
  "src_advance (r\<lparr>src_markState := m\<rparr>) =
     (fst (src_advance r), (snd (src_advance r))\<lparr>src_markState := m\<rparr>)"
  by (simp add: src_advance_def Let_def)

lemma skipWhitespace_wm:
  "skipWhitespace (r\<lparr>src_markState := m\<rparr>) = (skipWhitespace r)\<lparr>src_markState := m\<rparr>"
proof (induction r rule: skipWhitespace.induct)
  case (1 r)
  show ?case
    apply (subst skipWhitespace.simps[of "r\<lparr>src_markState := m\<rparr>"])
    apply (subst skipWhitespace.simps[of r])
    using "1.IH" by (auto simp: Let_def src_advance_wm)
qed

lemma readComment_loop_wm:
  "readComment_loop (r\<lparr>src_markState := m\<rparr>) s =
     apsnd (\<lambda>r. r\<lparr>src_markState := m\<rparr>) (readComment_loop r s)"
proof (induction r s rule: readComment_loop.induct)
  case (1 r s)
  show ?case
    apply (subst readComment_loop.simps[of "r\<lparr>src_markState := m\<rparr>"])
    apply (subst readComment_loop.simps[of r])
    using "1.IH" by (auto simp: Let_def src_advance_wm)
qed

lemma skipQuoted_loop_wm:
  "skipQuoted_loop (r\<lparr>src_markState := m\<rparr>) q s =
     apsnd (\<lambda>r. r\<lparr>src_markState := m\<rparr>) (skipQuoted_loop r q s)"
proof (induction r q s rule: skipQuoted_loop.induct)
  case (1 r q s)
  show ?case
    apply (subst skipQuoted_loop.simps[of "r\<lparr>src_markState := m\<rparr>"])
    apply (subst skipQuoted_loop.simps[of r])
    using "1.IH" by (auto simp: Let_def src_advance_wm)
qed

lemma skipQuotedContent_wm:
  "skipQuotedContent (r\<lparr>src_markState := m\<rparr>) q =
     apsnd (\<lambda>r. r\<lparr>src_markState := m\<rparr>) (skipQuotedContent r q)"
  by (simp add: skipQuotedContent_def src_advance_wm skipQuoted_loop_wm case_prod_beta apsnd_def
        map_prod_def)

lemma commandSub_loop_wm:
  "commandSub_loop (r\<lparr>src_markState := m\<rparr>) d s =
     apsnd (\<lambda>r. r\<lparr>src_markState := m\<rparr>) (commandSub_loop r d s)"
proof (induction r d s rule: commandSub_loop.induct)
  case (1 r d s)
  show ?case
    apply (subst commandSub_loop.simps[of "r\<lparr>src_markState := m\<rparr>"])
    apply (subst commandSub_loop.simps[of r])
    using "1.IH" by (auto simp: Let_def src_advance_wm skipQuotedContent_wm)
qed

lemma charClass_loop_wm:
  "charClass_loop (r\<lparr>src_markState := m\<rparr>) s =
     apsnd (\<lambda>r. r\<lparr>src_markState := m\<rparr>) (charClass_loop r s)"
proof (induction r s rule: charClass_loop.induct)
  case (1 r s)
  show ?case
    apply (subst charClass_loop.simps[of "r\<lparr>src_markState := m\<rparr>"])
    apply (subst charClass_loop.simps[of r])
    using "1.IH" by (auto simp: Let_def src_advance_wm)
qed

lemma set_mark_simps [simp]:
  "source (set_mark m sc) = (source sc)\<lparr>src_markState := m\<rparr>"
  "stateCtx (set_mark m sc) = stateCtx sc"
  "set_mark m (sc\<lparr>stateCtx := st\<rparr>) = (set_mark m sc)\<lparr>stateCtx := st\<rparr>"
  "set_mark m (sc\<lparr>source := r\<rparr>) = sc\<lparr>source := r\<lparr>src_markState := m\<rparr>\<rparr>"
  by (simp_all add: set_mark_def)

lemma readCharacterClass_wm:
  "readCharacterClass (set_mark m sc) = apsnd (set_mark m) (readCharacterClass sc)"
  by (simp add: readCharacterClass_def Let_def src_advance_wm charClass_loop_wm case_prod_beta)

lemma readCommandSubstitution_wm:
  "readCommandSubstitution (set_mark m sc) = apsnd (set_mark m) (readCommandSubstitution sc)"
  by (simp add: readCommandSubstitution_def src_advance_wm commandSub_loop_wm case_prod_beta)

lemma processChar_wm:
  "processChar (set_mark m sc) c = apsnd (set_mark m) (processChar sc c)"
  by (simp add: processChar_def handleSingleQuote_def handleDoubleQuote_def handleGlobChar_def
        handleEscape_def Let_def src_advance_wm readCharacterClass_wm readCommandSubstitution_wm)

lemma readComplexWord_loop_wm:
  "readComplexWord_loop (set_mark m sc) s fl =
     apsnd (apsnd (set_mark m)) (readComplexWord_loop sc s fl)"
proof (induction sc s fl rule: readComplexWord_loop.induct)
  case (1 sc s fl)
  show ?case
    apply (subst readComplexWord_loop.simps[of "set_mark m sc"])
    apply (subst readComplexWord_loop.simps[of sc])
    using "1.IH" by (auto simp: Let_def processChar_wm)
qed

lemma makeToken_hidden [simp]:
  "makeToken (sc\<lparr>stateCtx := st\<rparr>) k s start fl = makeToken sc k s start fl"
  "makeToken (set_mark m sc) k s start fl = makeToken sc k s start fl"
  by (simp_all add: makeToken_def)

lemma classifyWord_hidden [simp]:
  "classifyWord (sc\<lparr>stateCtx := st\<rparr>) s start fl = classifyWord sc s start fl"
  "classifyWord (set_mark m sc) s start fl = classifyWord sc s start fl"
  by (simp_all add: classifyWord_def)

lemma same_cursor_hide: "same_cursor a b \<Longrightarrow> b = hide (src_markState (source b)) (stateCtx b) a"
  unfolding same_cursor_def hide_def set_mark_def
  by (intro Scanner.equality StringSourceReader.equality) simp_all

lemma same_cursor_hide' [simp]: "same_cursor a (hide m st a)"
  by (simp add: same_cursor_def hide_def)

lemma same_cursor_sym: "same_cursor a b \<Longrightarrow> same_cursor b a"
  by (simp add: same_cursor_def)

lemma same_cursor_trans: "same_cursor a b \<Longrightarrow> same_cursor b c \<Longrightarrow> same_cursor a c"
  by (simp add: same_cursor_def)

lemma same_cursor_left: "same_cursor a b \<Longrightarrow> src_left (source a) = src_left (source b)"
  by (simp add: same_cursor_def src_left_def)

lemma tryFastPath_hide:
  "tryFastPath (hide m st sc) start = apsnd (\<lambda>s. s\<lparr>stateCtx := st\<rparr>) (tryFastPath sc start)"
proof -
  have "src_mark ((source sc)\<lparr>src_markState := m\<rparr>) = src_mark (source sc)"
    by (simp add: src_mark_def)
  then show ?thesis
    by (simp add: tryFastPath_def hide_def case_prod_beta Let_def set_mark_def classifyWord_def
          makeToken_def)
qed

lemma readComplexWord_stack:
  "readComplexWord (sc\<lparr>stateCtx := st\<rparr>) start = readComplexWord sc start"
  by (simp add: readComplexWord_def)

lemma readComplexWord_wm:
  "readComplexWord (set_mark m sc) start = apsnd (set_mark m) (readComplexWord sc start)"
  using readComplexWord_loop_wm[of m "sc\<lparr>stateCtx := ctx_reset\<rparr>" "[]" createEmptyFlags]
  by (simp add: readComplexWord_def case_prod_beta)

lemma readWord_hide:
  "fst (readWord (hide m st sc) start) = fst (readWord sc start)
   \<and> same_cursor (snd (readWord sc start)) (snd (readWord (hide m st sc) start))"
proof (cases "fst (tryFastPath sc start)")
  case (Some t)
  then show ?thesis
    by (simp add: readWord_def tryFastPath_hide case_prod_beta same_cursor_def)
next
  case None
  then show ?thesis
    by (simp add: readWord_def tryFastPath_hide case_prod_beta readComplexWord_stack
          same_cursor_def)
qed

lemma advanceToken_hide:
  "advanceToken (hide m st sc) k s start = apsnd (hide m st) (advanceToken sc k s start)"
  by (simp add: advanceToken_def hide_def Let_def src_advance_wm makeToken_def)

lemma readComment_hide:
  "readComment (hide m st sc) start = apsnd (hide m st) (readComment sc start)"
  by (simp add: readComment_def hide_def Let_def readComment_loop_wm case_prod_beta makeToken_def)

lemma nextToken_hide:
  "fst (nextToken (hide m st sc) start) = fst (nextToken sc start)
   \<and> same_cursor (snd (nextToken sc start)) (snd (nextToken (hide m st sc) start))"
proof -
  have s: "source (hide m st sc) = (source sc)\<lparr>src_markState := m\<rparr>" by (simp add: hide_def)
  have mk: "\<And>k sp fl. makeToken (hide m st sc) k sp start fl = makeToken sc k sp start fl"
    by (simp add: hide_def)
  show ?thesis
    using readWord_hide[of m st sc start]
    by (simp add: nextToken_def Let_def s mk advanceToken_hide readComment_hide
          split: option.splits)
qed

lemma hide_source [simp]: "source (hide m st sc) = (source sc)\<lparr>src_markState := m\<rparr>"
  by (simp add: hide_def)

lemma getToken_hide:
  "fst (getToken (hide m st sc)) = fst (getToken sc)
   \<and> same_cursor (snd (getToken sc)) (snd (getToken (hide m st sc)))"
proof -
  let ?sc1 = "sc\<lparr>source := skipWhitespace (source sc)\<rparr>"
  have a: "(hide m st sc)\<lparr>source := skipWhitespace (source (hide m st sc))\<rparr> = hide m st ?sc1"
    by (simp add: hide_def skipWhitespace_wm)
  have b: "src_position (source (hide m st ?sc1)) = src_position (source ?sc1)"
    by simp
  have g1: "getToken (hide m st sc) = nextToken (hide m st ?sc1) (src_position (source ?sc1))"
    unfolding getToken_def Let_def a b ..
  have g2: "getToken sc = nextToken ?sc1 (src_position (source ?sc1))"
    unfolding getToken_def Let_def ..
  show ?thesis unfolding g1 g2 by (rule nextToken_hide)
qed

lemma getToken_same_cursor:
  assumes "same_cursor a b"
  shows "fst (getToken b) = fst (getToken a) \<and> same_cursor (snd (getToken a)) (snd (getToken b))"
  using getToken_hide[of "src_markState (source b)" "stateCtx b" a] same_cursor_hide[OF assms]
  by simp

lemma tokenize_loop_same_cursor:
  "same_cursor a b \<Longrightarrow>
   map_option fst (tokenize_loop a tokens) = map_option fst (tokenize_loop b tokens)"
proof (induction "src_left (source a)" arbitrary: a b tokens rule: less_induct)
  case less
  note g = getToken_same_cursor[OF less.prems]
  show ?case
  proof (cases "tok_kind (fst (getToken a)) = TK_EOF")
    case True
    then show ?thesis
      using g by (subst (1 2) tokenize_loop.simps) (simp add: Let_def)
  next
    case False
    with getToken_cases[of a] have "src_left (source (snd (getToken a))) < src_left (source a)"
      by simp
    from less.hyps[OF this, of "snd (getToken b)" "tokens @ [fst (getToken a)]"] g
    show ?thesis
      using False by (subst (1 2) tokenize_loop.simps) (simp add: Let_def)
  qed
qed

subsection \<open>The claims about the lexer\<close>

text \<open>
  Claim C5. Lexing is deterministic: tokenizing a text with a fresh scanner returns a
  token sequence, and every scanner over the same text that stands at its start returns
  the same sequence (the same kinds, spellings, spans and flags in the same order),
  whatever mark and state stack the instance holds; a second fresh scanner is the
  instance with no mark and the initial stack.
\<close>

theorem tokenize_deterministic:
  "\<exists>ts. map_option fst (tokenize (new_Scanner text)) = Some ts
     \<and> (\<forall>m st. map_option fst (tokenize (hide m st (new_Scanner text))) = Some ts)
     \<and> hide None [NORMAL] (new_Scanner text) = new_Scanner text"
proof -
  obtain ts sc' where t: "tokenize (new_Scanner text) = Some (ts, sc')"
    using tokenize_loop_total[of "new_Scanner text" "[]"] by (auto simp: tokenize_def)
  have "map_option fst (tokenize (hide m st (new_Scanner text))) = Some ts" for m st
    using tokenize_loop_same_cursor[OF same_cursor_hide', of "new_Scanner text" "[]" m st] t
    by (simp add: tokenize_def)
  moreover have "hide None [NORMAL] (new_Scanner text) = new_Scanner text"
    by (simp add: hide_def set_mark_def new_Scanner_def new_StringSourceReader_def)
  ultimately show ?thesis using t by simp
qed

subsection \<open>Scanning a sequence of fragments\<close>





lemma mergeFlags_empty [simp]: "mergeFlags fl createEmptyFlags = fl"
  by (simp add: mergeFlags_def createEmptyFlags_def)



lemma ctx_simps [simp]:
  "ctx_inQuotes [NORMAL] = False" "ctx_inSingleQuote [NORMAL] = False"
  "ctx_inDoubleQuote [NORMAL] = False"
  "ctx_inQuotes [NORMAL, SINGLE_QUOTED] = True" "ctx_inSingleQuote [NORMAL, SINGLE_QUOTED] = True"
  "ctx_inDoubleQuote [NORMAL, SINGLE_QUOTED] = False"
  "ctx_inQuotes [NORMAL, DOUBLE_QUOTED] = True" "ctx_inSingleQuote [NORMAL, DOUBLE_QUOTED] = False"
  "ctx_inDoubleQuote [NORMAL, DOUBLE_QUOTED] = True"
  "ctx_push [NORMAL] s = [NORMAL, s]" "ctx_pop [NORMAL, s] = [NORMAL]"
  by (simp_all add: ctx_inQuotes_def ctx_inSingleQuote_def ctx_inDoubleQuote_def ctx_current_def
        ctx_push_def ctx_pop_def)








lemma plainFlags_simps [simp]:
  "plainFlags createEmptyFlags"
  "plainFlags (mergeFlags fl (createEmptyFlags\<lparr>singleQuoted := True, quoted := True\<rparr>)) = plainFlags fl"
  "plainFlags (mergeFlags fl (createEmptyFlags\<lparr>doubleQuoted := True, quoted := True\<rparr>)) = plainFlags fl"
  by (simp_all add: plainFlags_def mergeFlags_def createEmptyFlags_def)



text \<open>The fast path: it takes the word when all fragments are unquoted, and fails otherwise.\<close>

lemma rem_mark [simp]: "remaining (src_mark r) = remaining r"
  by (simp add: remaining_def src_mark_def)

lemma rem_with_mark [simp]: "remaining (r\<lparr>src_markState := m\<rparr>) = remaining r"
  by (simp add: remaining_def)






lemma classifyWord_simps [simp]:
  "isWordKind (tok_kind (classifyWord sc s start fl))"
  "tok_spelling (classifyWord sc s start fl) = s"
  "tok_flags (classifyWord sc s start fl) = fl"
  "span_start (tok_span (classifyWord sc s start fl)) = start"
  by (simp_all add: classifyWord_def makeToken_def isWordKind_def)







lemma rem_new_Scanner [simp]: "remaining (source (new_Scanner inp)) = inp"
  by (simp add: new_Scanner_def new_StringSourceReader_def remaining_def)

lemma isWordKind_not [simp]:
  "\<not> isWordKind TK_EOF" "\<not> isWordKind TK_COMMENT" "\<not> isWordKind TK_NEWLINE"
  "\<not> isWordKind TK_PIPE" "\<not> isWordKind TK_LESS" "\<not> isWordKind TK_GREAT"
  by (simp_all add: isWordKind_def)



subsection \<open>Adjacent fragments are one word\<close>



subsection \<open>The tokens cover the input\<close>











lemma inb_mark [simp]: "inBounds (r\<lparr>src_markState := m\<rparr>) = inBounds r"
  by (simp add: inBounds_def)

lemma inb_src_mark [simp]: "inBounds (src_mark r) = inBounds r"
  by (simp add: inBounds_def src_mark_def)













subsection \<open>Unterminated quotes and parentheses\<close>









subsection \<open>The lexer never fails\<close>




section \<open>Properties of the parser\<close>

subsection \<open>Reading the tokens of a chain\<close>




text \<open>What \<open>advance\<close> does before a bare word, a parenthesis and the end of the input.\<close>

lemma advance_fields [simp]:
  "errorReporter (advance p) = errorReporter p"
  "substitutionDepth (advance p) = substitutionDepth p"
  "currentToken (advance p) = fst (getToken (scanner p))"
  "scanner (advance p) = snd (getToken (scanner p))"
  "previousTokenPosition (advance p) = span_end (tok_span (currentToken p))"
  by (simp_all add: advance_def)






lemma readOn_trans:
  "readOn p p1 a (b @ rest) \<Longrightarrow> readOn p1 p2 b rest \<Longrightarrow> readOn p p2 (a @ b) rest"
  by (simp add: readOn_def)




lemma isWordKind_paren [simp]: "\<not> isWordKind TK_LPAREN" "\<not> isWordKind TK_RPAREN"
  by (simp_all add: isWordKind_def)







subsection \<open>Parsing a chain\<close>








lemma new_Parser_fields [simp]:
  "errorReporter (new_Parser inp ds d) = ds"
  "substitutionDepth (new_Parser inp ds d) = d"
  "currentToken (new_Parser inp ds d) = fst (getToken (new_Scanner inp))"
  "scanner (new_Parser inp ds d) = snd (getToken (new_Scanner inp))"
  by (simp_all add: new_Parser_def Let_def)

lemma inb_new_Scanner [simp]: "inBounds (source (new_Scanner inp))"
  by (simp add: inBounds_def new_Scanner_def new_StringSourceReader_def)


lemma isWordKind_not3 [simp]:
  "isWordKind k \<Longrightarrow> k \<noteq> TK_COMMENT" "isWordKind k \<Longrightarrow> k \<noteq> TK_NEWLINE"
  by (auto simp: isWordKind_def)


subsection \<open>The bound on the nesting of command substitutions\<close>




end
